theory Spec2Isabelle
  imports Complex_Main "HOL-Library.Sublist"
begin

section \<open>A recursive same-site web scraper\<close>

text \<open>
  The program is one Python class, \<^verbatim>\<open>WebScraper\<close> in \<^verbatim>\<open>webscaper.py\<close>. Its methods
  \<^verbatim>\<open>can_fetch\<close>, \<^verbatim>\<open>download_page\<close>, \<^verbatim>\<open>save_page\<close>, \<^verbatim>\<open>get_filename\<close> and \<^verbatim>\<open>scrape_website\<close>
  are embedded below under their own names. The object's mutable field
  \<^verbatim>\<open>visited_urls\<close> and everything the program does to the outside world (log lines,
  requests, sleeps, file writes) are threaded through the functions as an explicit
  state; Python exceptions are values of a sum type (\<open>Inl\<close> the exception raised,
  \<open>Inr\<close> the value returned).

  Python strings are modelled as \<open>string\<close>, that is as lists of 8-bit characters: the
  model speaks about ASCII (Latin-1) text.
\<close>

subsection \<open>Exceptions\<close>

text \<open>
  The exception classes the program can meet, all of them subclasses of Python's
  \<^verbatim>\<open>Exception\<close>. The first four are subclasses of \<^verbatim>\<open>requests.RequestException\<close>:
  \<open>HTTPError\<close> is what \<^verbatim>\<open>raise_for_status\<close> raises for a non-success status,
  \<open>ConnectionError\<close> and \<open>Timeout\<close> are the network failures. \<open>URLError\<close> and
  \<open>UrllibHTTPError\<close> belong to \<^verbatim>\<open>urllib\<close>, which reads \<^verbatim>\<open>robots.txt\<close>: the second is
  \<^verbatim>\<open>urllib.error.HTTPError\<close>, raised for an error status, with its \<^verbatim>\<open>code\<close>.
  \<open>ValueError\<close> comes from \<^verbatim>\<open>urlparse\<close>, \<^verbatim>\<open>urljoin\<close> and \<^verbatim>\<open>time.sleep\<close>, \<open>OverflowError\<close>
  from \<^verbatim>\<open>time.sleep\<close>, \<open>OSError\<close> from the file system and from \<^verbatim>\<open>time.sleep\<close>.
  \<^verbatim>\<open>KeyboardInterrupt\<close> is not an \<^verbatim>\<open>Exception\<close> and is not modelled.
\<close>

datatype exn =
    HTTPError | ConnectionError | Timeout | InvalidURL
  | URLError | UrllibHTTPError int | ValueError | OverflowError | OSError | OtherException

fun is_RequestException :: "exn \<Rightarrow> bool" where
  "is_RequestException HTTPError = True"
| "is_RequestException ConnectionError = True"
| "is_RequestException Timeout = True"
| "is_RequestException InvalidURL = True"
| "is_RequestException _ = False"

subsection \<open>String operations of the Python library\<close>

definition endswith :: "string \<Rightarrow> string \<Rightarrow> bool" where
  "endswith s suf = (length suf \<le> length s \<and> drop (length s - length suf) s = suf)"

definition replace_char :: "char \<Rightarrow> char \<Rightarrow> string \<Rightarrow> string" where
  \<comment> \<open>\<^verbatim>\<open>s.replace(a, b)\<close> for one-character strings\<close>
  "replace_char a b s = map (\<lambda>c. if c = a then b else c) s"

definition split1 :: "char \<Rightarrow> string \<Rightarrow> string \<times> string" where
  \<comment> \<open>\<^verbatim>\<open>s.split(c, 1)\<close> as a pair; when \<open>c\<close> does not occur the second part is empty\<close>
  "split1 c s = (takeWhile (\<lambda>x. x \<noteq> c) s, drop 1 (dropWhile (\<lambda>x. x \<noteq> c) s))"

fun split_on :: "char \<Rightarrow> string \<Rightarrow> string list" where
  \<comment> \<open>\<^verbatim>\<open>s.split(c)\<close>: never the empty list\<close>
  "split_on c [] = [[]]"
| "split_on c (x # xs) =
     (if x = c then [] # split_on c xs
      else (case split_on c xs of [] \<Rightarrow> [[x]] | w # ws \<Rightarrow> (x # w) # ws))"

fun join_with :: "char \<Rightarrow> string list \<Rightarrow> string" where
  \<comment> \<open>\<^verbatim>\<open>c.join(parts)\<close>\<close>
  "join_with c [] = []"
| "join_with c [w] = w"
| "join_with c (w # v # ws) = w @ c # join_with c (v # ws)"

definition ascii_uppercase :: string where
  "ascii_uppercase = ''ABCDEFGHIJKLMNOPQRSTUVWXYZ''"

definition ascii_lowercase :: string where
  "ascii_lowercase = ''abcdefghijklmnopqrstuvwxyz''"

definition lower_char :: "char \<Rightarrow> char" where
  "lower_char c = (case map_of (zip ascii_uppercase ascii_lowercase) c of Some l \<Rightarrow> l | None \<Rightarrow> c)"

definition is_ascii_alpha :: "char \<Rightarrow> bool" where
  "is_ascii_alpha c = (c \<in> set (ascii_lowercase @ ascii_uppercase))"

definition is_c0_or_space :: "char \<Rightarrow> bool" where
  \<comment> \<open>the characters of \<^verbatim>\<open>_WHATWG_C0_CONTROL_OR_SPACE\<close>: code points 0 to 32\<close>
  "is_c0_or_space c = ((of_char c :: nat) \<le> 32)"

definition remove_unsafe :: "string \<Rightarrow> string" where
  \<comment> \<open>tab, carriage return and newline are removed (\<^verbatim>\<open>_UNSAFE_URL_BYTES_TO_REMOVE\<close>)\<close>
  "remove_unsafe s = filter (\<lambda>c. (of_char c :: nat) \<notin> {9, 13, 10}) s"

subsection \<open>\<^verbatim>\<open>urllib.parse\<close>\<close>

text \<open>
  \<^verbatim>\<open>urlparse\<close> and \<^verbatim>\<open>urljoin\<close> belong to Python's standard library, not to the program.
  They are modelled after CPython 3.11.10's \<^verbatim>\<open>urllib/parse.py\<close> on text strings, with the
  validation of a bracketed host by the \<^verbatim>\<open>ipaddress\<close> module. The NFKC check of
  \<^verbatim>\<open>_checknetloc\<close> has no counterpart: it raises when the normal form of a character of
  the authority holds one of \<^verbatim>\<open>/?#@:\<close>, which none of the characters of this model (code
  points up to 255) does.
\<close>

definition is_hex_digit :: "char \<Rightarrow> bool" where
  \<comment> \<open>\<^verbatim>\<open>_HEX_DIGITS\<close>\<close>
  "is_hex_digit c = (c \<in> set ''0123456789ABCDEFabcdef'')"

definition is_ascii_digit :: "char \<Rightarrow> bool" where
  "is_ascii_digit c = (c \<in> set ''0123456789'')"

definition digit_value :: "char \<Rightarrow> nat" where
  "digit_value c = (case map_of (zip ''0123456789'' [0 ..< 10]) c of Some n \<Rightarrow> n | None \<Rightarrow> 0)"

definition parse_octet_ok :: "string \<Rightarrow> bool" where
  \<comment> \<open>\<^verbatim>\<open>_BaseV4._parse_octet\<close> raises nothing: decimal digits, at most three, no leading
      zero, at most 255\<close>
  "parse_octet_ok w =
     (w \<noteq> [] \<and> list_all is_ascii_digit w \<and> length w \<le> 3 \<and>
      (w = ''0'' \<or> hd w \<noteq> CHR ''0'') \<and>
      foldl (\<lambda>n c. 10 * n + digit_value c) 0 w \<le> 255)"

definition ipv4_address_ok :: "string \<Rightarrow> bool" where
  \<comment> \<open>\<^verbatim>\<open>IPv4Address(w)\<close> raises nothing\<close>
  "ipv4_address_ok w =
     (CHR ''/'' \<notin> set w \<and> w \<noteq> [] \<and>
      length (split_on (CHR ''.'') w) = 4 \<and> list_all parse_octet_ok (split_on (CHR ''.'') w))"

definition parse_hextet_ok :: "string \<Rightarrow> bool" where
  \<comment> \<open>\<^verbatim>\<open>_BaseV6._parse_hextet\<close> raises nothing (\<^verbatim>\<open>int('', 16)\<close> raises)\<close>
  "parse_hextet_ok w = (list_all is_hex_digit w \<and> length w \<le> 4 \<and> w \<noteq> [])"

definition ipv6_parts_ok :: "string list \<Rightarrow> bool" where
  \<comment> \<open>\<^verbatim>\<open>_BaseV6._ip_int_from_string\<close> from the check of \<^verbatim>\<open>_max_parts\<close> on: at most one
      \<^verbatim>\<open>::\<close>, found among the inner parts; an empty first or last part only as a part of
      it; eight parts without it, fewer with it; every part that is read a hextet\<close>
  "ipv6_parts_ok parts =
     (let skips = filter (\<lambda>i. parts ! i = []) [1 ..< length parts - 1] in
      length parts \<le> 9 \<and>
      (case skips of
         [] \<Rightarrow> length parts = 8 \<and> hd parts \<noteq> [] \<and> last parts \<noteq> [] \<and> list_all parse_hextet_ok parts
       | [skip_index] \<Rightarrow>
           (let parts_hi = (if hd parts = [] then skip_index - 1 else skip_index);
                parts_lo = (if last parts = [] then length parts - skip_index - 2
                            else length parts - skip_index - 1)
            in (hd parts = [] \<longrightarrow> parts_hi = 0) \<and> (last parts = [] \<longrightarrow> parts_lo = 0) \<and>
               parts_hi + parts_lo < 8 \<and>
               list_all parse_hextet_ok (take parts_hi parts) \<and>
               list_all parse_hextet_ok (drop (length parts - parts_lo) parts))
       | _ \<Rightarrow> False))"

definition ipv6_address_ok :: "string \<Rightarrow> bool" where
  \<comment> \<open>\<^verbatim>\<open>IPv6Address(w)\<close> raises nothing. The scope id after \<^verbatim>\<open>%\<close> is split off first. An
      IPv4 suffix is checked and replaced by two hextets, which are well formed whatever
      their value: \<^verbatim>\<open>0\<close> stands for them\<close>
  "ipv6_address_ok w =
     (let addr = takeWhile (\<lambda>c. c \<noteq> CHR ''%'') w;
          scope_id = drop 1 (dropWhile (\<lambda>c. c \<noteq> CHR ''%'') w);
          parts = split_on (CHR '':'') addr
      in CHR ''/'' \<notin> set w \<and>
         (CHR ''%'' \<in> set w \<longrightarrow> scope_id \<noteq> [] \<and> CHR ''%'' \<notin> set scope_id) \<and>
         addr \<noteq> [] \<and> 3 \<le> length parts \<and>
         (if CHR ''.'' \<in> set (last parts)
          then ipv4_address_ok (last parts) \<and> ipv6_parts_ok (butlast parts @ [''0'', ''0''])
          else ipv6_parts_ok parts))"

definition check_bracketed_host :: "string \<Rightarrow> bool" where
  \<comment> \<open>\<^verbatim>\<open>_check_bracketed_host\<close> raises nothing: an IPvFuture literal (\<^verbatim>\<open>v\<close>, hexadecimal
      digits, a dot, anything not empty), or what \<^verbatim>\<open>ipaddress.ip_address\<close> accepts and
      is not an IPv4 address\<close>
  "check_bracketed_host hostname =
     (if take 1 hostname = ''v''
      then (let hex = takeWhile is_hex_digit (drop 1 hostname);
                rest = dropWhile is_hex_digit (drop 1 hostname)
            in hex \<noteq> [] \<and> take 1 rest = ''.'' \<and> drop 1 rest \<noteq> [])
      else \<not> ipv4_address_ok hostname \<and> ipv6_address_ok hostname)"

definition bracketed_host :: "string \<Rightarrow> string" where
  \<comment> \<open>\<^verbatim>\<open>netloc.partition('[')[2].partition(']')[0]\<close>\<close>
  "bracketed_host nl =
     takeWhile (\<lambda>c. c \<noteq> CHR '']'') (drop 1 (dropWhile (\<lambda>c. c \<noteq> CHR ''['') nl))"

definition uses_relative :: "string list" where
  "uses_relative = ['''', ''ftp'', ''http'', ''gopher'', ''nntp'', ''imap'',
     ''wais'', ''file'', ''https'', ''shttp'', ''mms'',
     ''prospero'', ''rtsp'', ''rtsps'', ''rtspu'', ''sftp'',
     ''svn'', ''svn+ssh'', ''ws'', ''wss'']"

definition uses_netloc :: "string list" where
  "uses_netloc = ['''', ''ftp'', ''http'', ''gopher'', ''nntp'', ''telnet'',
     ''imap'', ''wais'', ''file'', ''mms'', ''https'', ''shttp'',
     ''snews'', ''prospero'', ''rtsp'', ''rtsps'', ''rtspu'', ''rsync'',
     ''svn'', ''svn+ssh'', ''sftp'', ''nfs'', ''git'', ''git+ssh'',
     ''ws'', ''wss'']"

definition uses_params :: "string list" where
  "uses_params = ['''', ''ftp'', ''hdl'', ''prospero'', ''http'', ''imap'',
     ''https'', ''shttp'', ''rtsp'', ''rtsps'', ''rtspu'', ''sip'',
     ''sips'', ''mms'', ''sftp'', ''tel'']"

definition scheme_chars :: string where
  "scheme_chars = ascii_lowercase @ ascii_uppercase @ ''0123456789'' @ ''+-.''"

record parse_result =
  scheme :: string
  netloc :: string
  path :: string
  params :: string
  query :: string
  fragment :: string

definition parse_scheme :: "string \<Rightarrow> string \<Rightarrow> string \<times> string" where
  \<comment> \<open>the scheme of \<^verbatim>\<open>urlsplit\<close>: the text before the first colon, when that text is not
      empty, starts with a letter and holds scheme characters only\<close>
  "parse_scheme url dflt =
     (let pre = takeWhile (\<lambda>c. c \<noteq> CHR '':'') url in
      if CHR '':'' \<in> set url \<and> pre \<noteq> [] \<and> is_ascii_alpha (hd url)
         \<and> list_all (\<lambda>c. c \<in> set scheme_chars) pre
      then (map lower_char pre, drop (length pre + 1) url)
      else (dflt, url))"

definition splitnetloc :: "string \<Rightarrow> string \<times> string" where
  \<comment> \<open>\<^verbatim>\<open>_splitnetloc(url, 2)\<close>, for a \<open>url\<close> that starts with two slashes\<close>
  "splitnetloc url =
     (let is_delim = (\<lambda>c. c \<in> set ''/?#'') in
      (takeWhile (\<lambda>c. \<not> is_delim c) (drop 2 url), dropWhile (\<lambda>c. \<not> is_delim c) (drop 2 url)))"

definition urlsplit :: "string \<Rightarrow> string \<Rightarrow> exn + (string \<times> string \<times> string \<times> string \<times> string)" where
  "urlsplit url dflt =
     (let url1 = remove_unsafe (dropWhile is_c0_or_space url);
          dflt1 = remove_unsafe (rev (dropWhile is_c0_or_space (rev (dropWhile is_c0_or_space dflt))));
          (sch, url2) = parse_scheme url1 dflt1;
          (nl, url3) = (if take 2 url2 = ''//'' then splitnetloc url2 else ([], url2))
      in if (CHR ''['' \<in> set nl) \<noteq> (CHR '']'' \<in> set nl) then Inl ValueError
         else if CHR ''['' \<in> set nl \<and> CHR '']'' \<in> set nl \<and> \<not> check_bracketed_host (bracketed_host nl)
         then Inl ValueError
         else
           let (url4, frag) = split1 (CHR ''#'') url3;
               (url5, qry) = split1 (CHR ''?'') url4
           in Inr (sch, nl, url5, qry, frag))"

definition splitparams :: "string \<Rightarrow> string \<times> string" where
  \<comment> \<open>\<^verbatim>\<open>_splitparams\<close>: the parameters are looked for in the last path segment only\<close>
  "splitparams url =
     (if CHR ''/'' \<in> set url then
        (let seg = rev (takeWhile (\<lambda>c. c \<noteq> CHR ''/'') (rev url));
             dir = take (length url - length seg) url
         in if CHR '';'' \<in> set seg then (dir @ fst (split1 (CHR '';'') seg), snd (split1 (CHR '';'') seg))
            else (url, []))
      else split1 (CHR '';'') url)"

definition urlparse_default :: "string \<Rightarrow> string \<Rightarrow> exn + parse_result" where
  \<comment> \<open>\<^verbatim>\<open>urlparse(url, scheme)\<close>\<close>
  "urlparse_default url dflt =
     (case urlsplit url dflt of
        Inl e \<Rightarrow> Inl e
      | Inr (sch, nl, u, qry, frag) \<Rightarrow>
          (let (u1, prm) = (if sch \<in> set uses_params \<and> CHR '';'' \<in> set u then splitparams u else (u, []))
           in Inr \<lparr>scheme = sch, netloc = nl, path = u1, params = prm, query = qry, fragment = frag\<rparr>))"

definition urlparse :: "string \<Rightarrow> exn + parse_result" where
  "urlparse url = urlparse_default url []"

definition urlunsplit :: "string \<Rightarrow> string \<Rightarrow> string \<Rightarrow> string \<Rightarrow> string \<Rightarrow> string" where
  "urlunsplit sch nl url qry frag =
     (let url1 = (if nl \<noteq> [] \<or> (sch \<noteq> [] \<and> sch \<in> set uses_netloc) \<or> take 2 url = ''//''
                  then ''//'' @ nl @ (if url \<noteq> [] \<and> take 1 url \<noteq> ''/'' then ''/'' @ url else url)
                  else url);
          url2 = (if sch \<noteq> [] then sch @ '':'' @ url1 else url1);
          url3 = (if qry \<noteq> [] then url2 @ ''?'' @ qry else url2)
      in if frag \<noteq> [] then url3 @ ''#'' @ frag else url3)"

definition urlunparse :: "parse_result \<Rightarrow> string" where
  "urlunparse r =
     urlunsplit (scheme r) (netloc r)
       (if params r \<noteq> [] then path r @ '';'' @ params r else path r) (query r) (fragment r)"

fun resolve_segments :: "string list \<Rightarrow> string list \<Rightarrow> string list" where
  \<comment> \<open>the loop of \<^verbatim>\<open>urljoin\<close> over \<^verbatim>\<open>segments\<close>; the first argument is \<^verbatim>\<open>resolved_path\<close>\<close>
  "resolve_segments resolved [] = resolved"
| "resolve_segments resolved (seg # segs) =
     (if seg = ''..'' then resolve_segments (butlast resolved) segs
      else if seg = ''.'' then resolve_segments resolved segs
      else resolve_segments (resolved @ [seg]) segs)"

definition squeeze_middle :: "string list \<Rightarrow> string list" where
  \<comment> \<open>\<^verbatim>\<open>segments[1:-1] = filter(None, segments[1:-1])\<close>\<close>
  "squeeze_middle segs =
     (if length segs < 2 then segs
      else hd segs # filter (\<lambda>w. w \<noteq> []) (butlast (tl segs)) @ [last segs])"

definition urljoin :: "string \<Rightarrow> string \<Rightarrow> exn + string" where
  "urljoin base url =
     (if base = [] then Inr url
      else if url = [] then Inr base
      else case urlparse_default base [] of
        Inl e \<Rightarrow> Inl e
      | Inr b \<Rightarrow>
         (case urlparse_default url (scheme b) of
            Inl e \<Rightarrow> Inl e
          | Inr u \<Rightarrow>
             if scheme u \<noteq> scheme b \<or> scheme u \<notin> set uses_relative then Inr url
             else if scheme u \<in> set uses_netloc \<and> netloc u \<noteq> [] then Inr (urlunparse u)
             else
               let nl = (if scheme u \<in> set uses_netloc then netloc b else netloc u) in
               if path u = [] \<and> params u = [] then
                 Inr (urlunparse (u\<lparr>netloc := nl, path := path b, params := params b,
                        query := (if query u = [] then query b else query u)\<rparr>))
               else
                 let base_parts0 = split_on (CHR ''/'') (path b);
                     base_parts = (if last base_parts0 \<noteq> [] then butlast base_parts0 else base_parts0);
                     segments = (if take 1 (path u) = ''/'' then split_on (CHR ''/'') (path u)
                                 else squeeze_middle (base_parts @ split_on (CHR ''/'') (path u)));
                     resolved0 = resolve_segments [] segments;
                     resolved = (if last segments \<in> {''.'', ''..''} then resolved0 @ [[]] else resolved0);
                     joined = join_with (CHR ''/'') resolved
                 in Inr (urlunparse (u\<lparr>netloc := nl, path := (if joined = [] then ''/'' else joined)\<rparr>))))"

subsection \<open>\<^verbatim>\<open>os.path\<close> (POSIX)\<close>

definition os_path_splitext_ext :: "string \<Rightarrow> string" where
  \<comment> \<open>\<^verbatim>\<open>os.path.splitext(p)[1]\<close>: the extension starts at the last dot of the last
      segment, unless only dots stand before it in that segment\<close>
  "os_path_splitext_ext p =
     (let seg = rev (takeWhile (\<lambda>c. c \<noteq> CHR ''/'') (rev p));
          ext = rev (takeWhile (\<lambda>c. c \<noteq> CHR ''.'') (rev seg));
          stem = take (length seg - length ext - 1) seg
      in if CHR ''.'' \<in> set seg \<and> (\<exists>c \<in> set stem. c \<noteq> CHR ''.'') then CHR ''.'' # ext else [])"

definition os_path_join :: "string \<Rightarrow> string \<Rightarrow> string" where
  "os_path_join a b =
     (if take 1 b = ''/'' then b
      else if a = [] \<or> endswith a ''/'' then a @ b
      else a @ ''/'' @ b)"

subsection \<open>The world around the scraper\<close>

text \<open>
  Everything the program does to the outside is recorded, in order, as an event of the
  trace: the records handed to \<^verbatim>\<open>logging\<close>, the read of a \<^verbatim>\<open>robots.txt\<close>, a call of
  \<^verbatim>\<open>time.sleep\<close> that has returned, the GET request, the write of a file (the call of
  \<^verbatim>\<open>os.makedirs\<close> followed by \<^verbatim>\<open>open\<close> and \<^verbatim>\<open>write\<close>).
\<close>

datatype py_float = Finite real | PosInf | NegInf | NaN

datatype level = INFO | WARNING | ERROR

datatype message =
    Scraping int string           \<comment> \<open>\<^verbatim>\<open>Scraping (depth {depth}): {url}\<close>\<close>
  | RobotsCheckError string exn   \<comment> \<open>\<^verbatim>\<open>Error checking robots.txt for {url}: {e}\<close>\<close>
  | RobotsDisallows string        \<comment> \<open>\<^verbatim>\<open>robots.txt disallows scraping: {url}\<close>\<close>
  | DownloadFailed string exn     \<comment> \<open>\<^verbatim>\<open>Failed to download {url}: {e}\<close>\<close>
  | Saved string string           \<comment> \<open>\<^verbatim>\<open>Saved: {url} -> {filename}\<close>\<close>
  | SaveFailed string exn         \<comment> \<open>\<^verbatim>\<open>Failed to save {url}: {e}\<close>\<close>
  | ParseFailed string exn        \<comment> \<open>\<^verbatim>\<open>Error parsing {url}: {e}\<close>\<close>

datatype event =
    Log level message
  | RobotsRead string
  | Sleep py_float
  | HttpGet string
  | WriteFile string string

text \<open>
  The answers of the outside world are parameters of the model. An answer may depend on
  everything that has happened so far (the trace), so that a server may answer the same
  request differently at different times. \<open>html_hrefs\<close> stands for the HTML parser:
  \<^verbatim>\<open>BeautifulSoup(html_content, "html.parser")\<close> followed by
  \<^verbatim>\<open>find_all("a", href=True)\<close>, giving the \<^verbatim>\<open>href\<close> attributes in document order, or the
  exception the parser raises. \<open>sleep_outcome\<close> is what \<^verbatim>\<open>time.sleep\<close> does with a length:
  it returns, or it raises (\<^verbatim>\<open>ValueError\<close> for a negative length and for NaN,
  \<^verbatim>\<open>OverflowError\<close> for a length too large for the clock, \<^verbatim>\<open>OSError\<close> when the operating
  system refuses the length); where the bounds lie depends on the platform.
\<close>

record env =
  urlopen :: "event list \<Rightarrow> string \<Rightarrow> exn + string"
    \<comment> \<open>\<^verbatim>\<open>urllib.request.urlopen(url)\<close> and \<^verbatim>\<open>f.read()\<close>: the bytes of \<^verbatim>\<open>robots.txt\<close>, or the
        exception raised (\<open>UrllibHTTPError\<close> for an error status)\<close>
  robots_rules :: "string \<Rightarrow> string \<Rightarrow> string \<Rightarrow> exn + bool"
    \<comment> \<open>the bytes, the user agent, the page URL: \<^verbatim>\<open>raw.decode("utf-8")\<close>, \<^verbatim>\<open>parse\<close>, and the
        search of the rules by \<^verbatim>\<open>RobotFileParser.can_fetch\<close>\<close>
  sleep_outcome :: "event list \<Rightarrow> py_float \<Rightarrow> exn + unit"
  http_get :: "event list \<Rightarrow> string \<Rightarrow> exn + string"
    \<comment> \<open>\<^verbatim>\<open>session.get(url, timeout=10)\<close>, \<^verbatim>\<open>raise_for_status()\<close>, \<^verbatim>\<open>response.text\<close>\<close>
  write_file :: "event list \<Rightarrow> string \<Rightarrow> string \<Rightarrow> exn + unit"
    \<comment> \<open>\<^verbatim>\<open>os.makedirs\<close> of the directory, \<^verbatim>\<open>open\<close> and \<^verbatim>\<open>write\<close>\<close>
  html_hrefs :: "string \<Rightarrow> exn + string list"

record config =
  base_dir :: string    \<comment> \<open>already absolute: \<^verbatim>\<open>os.path.abspath(base_dir)\<close>\<close>
  max_depth :: int
  delay :: py_float

record state =
  visited_urls :: "string set"
  trace :: "event list"

definition user_agent :: string where
  "user_agent = ''Mozilla/5.0 (Windows NT 10.0; Win64; x64) AppleWebKit/537.36''"

definition emit :: "event \<Rightarrow> state \<Rightarrow> state" where
  "emit ev s = s\<lparr>trace := trace s @ [ev]\<rparr>"

definition logging :: "level \<Rightarrow> message \<Rightarrow> state \<Rightarrow> state" where
  "logging lvl msg s = emit (Log lvl msg) s"

definition time_sleep :: "env \<Rightarrow> py_float \<Rightarrow> state \<Rightarrow> (exn + unit) \<times> state" where
  "time_sleep E secs s =
     (case sleep_outcome E (trace s) secs of
        Inl e \<Rightarrow> (Inl e, s)
      | Inr _ \<Rightarrow> (Inr (), emit (Sleep secs) s))"

subsection \<open>\<^verbatim>\<open>urllib.robotparser.RobotFileParser\<close>\<close>

text \<open>
  What \<^verbatim>\<open>read\<close> leaves in the parser: one of the flags \<^verbatim>\<open>disallow_all\<close> and \<^verbatim>\<open>allow_all\<close>,
  or neither flag and nothing parsed (\<^verbatim>\<open>last_checked\<close> is still 0), or the bytes handed to
  \<^verbatim>\<open>parse\<close>. \<^verbatim>\<open>read\<close> catches \<^verbatim>\<open>urllib.error.HTTPError\<close> and nothing else.
\<close>

datatype robot_file = DisallowAll | AllowAll | NeverChecked | Parsed string

definition rp_read :: "env \<Rightarrow> string \<Rightarrow> state \<Rightarrow> (exn + robot_file) \<times> state" where
  "rp_read E robots_url s =
     (case urlopen E (trace s) robots_url of
        Inl (UrllibHTTPError code) \<Rightarrow>
          (Inr (if code = 401 \<or> code = 403 then DisallowAll
                else if 400 \<le> code \<and> code < 500 then AllowAll
                else NeverChecked), emit (RobotsRead robots_url) s)
      | Inl e \<Rightarrow> (Inl e, emit (RobotsRead robots_url) s)
      | Inr raw \<Rightarrow> (Inr (Parsed raw), emit (RobotsRead robots_url) s))"

definition rp_can_fetch :: "env \<Rightarrow> robot_file \<Rightarrow> string \<Rightarrow> string \<Rightarrow> exn + bool" where
  "rp_can_fetch E rp useragent url =
     (case rp of
        DisallowAll \<Rightarrow> Inr False
      | AllowAll \<Rightarrow> Inr True
      | NeverChecked \<Rightarrow> Inr False
      | Parsed raw \<Rightarrow> robots_rules E raw useragent url)"

subsection \<open>\<^verbatim>\<open>WebScraper.can_fetch\<close>\<close>

definition robots_url_for :: "parse_result \<Rightarrow> string" where
  \<comment> \<open>\<^verbatim>\<open>f"{urlparse(url).scheme}://{urlparse(url).netloc}/robots.txt"\<close>\<close>
  "robots_url_for parsed = scheme parsed @ ''://'' @ netloc parsed @ ''/robots.txt''"

definition can_fetch_try :: "env \<Rightarrow> string \<Rightarrow> state \<Rightarrow> (exn + bool) \<times> state" where
  \<comment> \<open>the body of the \<^verbatim>\<open>try\<close>; \<^verbatim>\<open>rp.set_url\<close> parses the URL of \<^verbatim>\<open>robots.txt\<close>\<close>
  "can_fetch_try E url s =
     (case urlparse url of
        Inl e \<Rightarrow> (Inl e, s)
      | Inr parsed \<Rightarrow>
          (let robots_url = robots_url_for parsed in
           case urlparse robots_url of
             Inl e \<Rightarrow> (Inl e, s)
           | Inr _ \<Rightarrow>
               (case rp_read E robots_url s of
                  (Inl e, s1) \<Rightarrow> (Inl e, s1)
                | (Inr rp, s1) \<Rightarrow> (rp_can_fetch E rp user_agent url, s1))))"

definition can_fetch :: "env \<Rightarrow> string \<Rightarrow> state \<Rightarrow> bool \<times> state" where
  "can_fetch E url s =
     (case can_fetch_try E url s of
        (Inr allowed, s1) \<Rightarrow> (allowed, s1)
      | (Inl e, s1) \<Rightarrow> (True, logging WARNING (RobotsCheckError url e) s1))"

subsection \<open>\<^verbatim>\<open>WebScraper.download_page\<close>\<close>

definition download_page_try :: "env \<Rightarrow> config \<Rightarrow> string \<Rightarrow> state \<Rightarrow> (exn + string option) \<times> state" where
  \<comment> \<open>the body of the \<^verbatim>\<open>try\<close>; \<open>None\<close> is Python's \<^verbatim>\<open>None\<close>\<close>
  "download_page_try E cfg url s =
     (case can_fetch E url s of
        (False, s1) \<Rightarrow> (Inr None, logging WARNING (RobotsDisallows url) s1)
      | (True, s1) \<Rightarrow>
          (case time_sleep E (delay cfg) s1 of
             (Inl e, s2) \<Rightarrow> (Inl e, s2)
           | (Inr _, s2) \<Rightarrow>
               (case http_get E (trace s2) url of
                  Inl e \<Rightarrow> (Inl e, emit (HttpGet url) s2)
                | Inr text \<Rightarrow> (Inr (Some text), emit (HttpGet url) s2))))"

definition download_page :: "env \<Rightarrow> config \<Rightarrow> string \<Rightarrow> state \<Rightarrow> (exn + string option) \<times> state" where
  \<comment> \<open>\<^verbatim>\<open>except requests.RequestException\<close>: any other exception leaves the method\<close>
  "download_page E cfg url s =
     (case download_page_try E cfg url s of
        (Inl e, s1) \<Rightarrow>
          (if is_RequestException e then (Inr None, logging ERROR (DownloadFailed url e) s1)
           else (Inl e, s1))
      | (Inr r, s1) \<Rightarrow> (Inr r, s1))"

subsection \<open>\<^verbatim>\<open>WebScraper.get_filename\<close> and \<^verbatim>\<open>WebScraper.save_page\<close>\<close>

definition get_filename :: "config \<Rightarrow> string \<Rightarrow> exn + string" where
  "get_filename cfg url =
     (case urlparse url of
        Inl e \<Rightarrow> Inl e
      | Inr parsed_url \<Rightarrow>
          (let p0 = path parsed_url;
               p1 = (if p0 = [] \<or> p0 = ''/'' then ''/index.html''
                     else if endswith p0 ''/'' then p0 @ ''index.html''
                     else if os_path_splitext_ext p0 = [] then p0 @ ''.html''
                     else p0);
               nl = replace_char (CHR '':'') (CHR ''_'') (netloc parsed_url);
               p2 = replace_char (CHR ''='') (CHR ''_'')
                      (replace_char (CHR ''&'') (CHR ''_'')
                        (replace_char (CHR ''?'') (CHR ''_'') p1))
           in Inr (os_path_join (base_dir cfg) (nl @ p2))))"

definition save_page_try :: "env \<Rightarrow> config \<Rightarrow> string \<Rightarrow> string \<Rightarrow> state \<Rightarrow> (exn + unit) \<times> state" where
  \<comment> \<open>the body of the \<^verbatim>\<open>try\<close>\<close>
  "save_page_try E cfg url content s =
     (case get_filename cfg url of
        Inl e \<Rightarrow> (Inl e, s)
      | Inr filename \<Rightarrow>
          (case write_file E (trace s) filename content of
             Inl e \<Rightarrow> (Inl e, emit (WriteFile filename content) s)
           | Inr _ \<Rightarrow> (Inr (), logging INFO (Saved url filename) (emit (WriteFile filename content) s))))"

definition save_page :: "env \<Rightarrow> config \<Rightarrow> string \<Rightarrow> string \<Rightarrow> state \<Rightarrow> state" where
  \<comment> \<open>\<^verbatim>\<open>except Exception\<close>: nothing leaves the method\<close>
  "save_page E cfg url content s =
     (case save_page_try E cfg url content s of
        (Inl e, s1) \<Rightarrow> logging ERROR (SaveFailed url e) s1
      | (Inr _, s1) \<Rightarrow> s1)"

subsection \<open>\<^verbatim>\<open>WebScraper.scrape_website\<close>\<close>

definition depth_or_default :: "config \<Rightarrow> int option \<Rightarrow> int" where
  \<comment> \<open>\<^verbatim>\<open>if depth is None: depth = self.max_depth\<close>\<close>
  "depth_or_default cfg depth = (case depth of None \<Rightarrow> max_depth cfg | Some d \<Rightarrow> d)"

definition mark_visited :: "string \<Rightarrow> int \<Rightarrow> state \<Rightarrow> state" where
  \<comment> \<open>\<^verbatim>\<open>self.visited_urls.add(url)\<close>, then the log line\<close>
  "mark_visited url d s = logging INFO (Scraping d url) (s\<lparr>visited_urls := insert url (visited_urls s)\<rparr>)"

text \<open>
  \<open>follow_links\<close> is the \<^verbatim>\<open>for\<close> loop over the links of a page, inside the \<^verbatim>\<open>try\<close> of
  \<^verbatim>\<open>scrape_website\<close>: an exception raised while a link is resolved, or one that leaves a
  recursive call, ends the loop and is handed to the \<^verbatim>\<open>except Exception\<close> of the page.
\<close>

function scrape_website :: "env \<Rightarrow> config \<Rightarrow> string \<Rightarrow> int option \<Rightarrow> state \<Rightarrow> (exn + unit) \<times> state"
  and follow_links :: "env \<Rightarrow> config \<Rightarrow> string \<Rightarrow> int \<Rightarrow> string list \<Rightarrow> state \<Rightarrow> (exn + unit) \<times> state"
where
  "scrape_website E cfg url depth s =
     (if depth_or_default cfg depth < 0 \<or> url \<in> visited_urls s then (Inr (), s)
      else
        (case download_page E cfg url (mark_visited url (depth_or_default cfg depth) s) of
           (Inl e, s2) \<Rightarrow> (Inl e, s2)
         | (Inr None, s2) \<Rightarrow> (Inr (), s2)
         | (Inr (Some html_content), s2) \<Rightarrow>
             if html_content = [] then (Inr (), s2)
             else
               (case (case html_hrefs E html_content of
                        Inl e \<Rightarrow> (Inl e, save_page E cfg url html_content s2)
                      | Inr hrefs \<Rightarrow>
                          follow_links E cfg url (depth_or_default cfg depth) hrefs
                            (save_page E cfg url html_content s2)) of
                  (Inl e, s4) \<Rightarrow> (Inr (), logging ERROR (ParseFailed url e) s4)
                | (Inr _, s4) \<Rightarrow> (Inr (), s4))))"
| "follow_links E cfg url d [] s = (Inr (), s)"
| "follow_links E cfg url d (href # hrefs) s =
     (case urljoin url href of
        Inl e \<Rightarrow> (Inl e, s)
      | Inr next_url \<Rightarrow>
          (case urlparse next_url of
             Inl e \<Rightarrow> (Inl e, s)
           | Inr parsed_next \<Rightarrow>
               (case urlparse url of
                  Inl e \<Rightarrow> (Inl e, s)
                | Inr parsed_current \<Rightarrow>
                    if netloc parsed_next = netloc parsed_current
                       \<and> scheme parsed_next \<in> {''http'', ''https''}
                    then
                      (case scrape_website E cfg next_url (Some (d - 1)) s of
                         (Inl e, s1) \<Rightarrow> (Inl e, s1)
                       | (Inr _, s1) \<Rightarrow> follow_links E cfg url d hrefs s1)
                    else follow_links E cfg url d hrefs s)))"
  by pat_completeness auto

termination
  apply (relation "inv_image (less_than <*lex*> less_than)
    (\<lambda>x. case x of
       Inl (E, cfg, url, depth, s) \<Rightarrow> (2 * nat (depth_or_default cfg depth + 1), 0)
     | Inr (E, cfg, url, d, hrefs, s) \<Rightarrow> (2 * nat d + 1, length hrefs))")
      apply (intro wf_inv_image wf_lex_prod wf_less_than)
     apply simp
     apply linarith
    apply (simp add: depth_or_default_def)
   apply simp
  apply simp
  done

subsection \<open>What a trace shows\<close>

definition fetched :: "event list \<Rightarrow> string list" where
  \<comment> \<open>the URLs of the GET requests, in order\<close>
  "fetched tr = concat (map (\<lambda>ev. case ev of HttpGet u \<Rightarrow> [u] | _ \<Rightarrow> []) tr)"

definition scraped :: "event list \<Rightarrow> string list" where
  \<comment> \<open>the URLs whose traversal has begun (the log line that follows the insertion into
      \<^verbatim>\<open>visited_urls\<close>), in order\<close>
  "scraped tr = concat (map (\<lambda>ev. case ev of Log lvl (Scraping d u) \<Rightarrow> [u] | _ \<Rightarrow> []) tr)"

definition written :: "event list \<Rightarrow> (string \<times> string) list" where
  \<comment> \<open>the files written, with their content, in order\<close>
  "written tr = concat (map (\<lambda>ev. case ev of WriteFile f c \<Rightarrow> [(f, c)] | _ \<Rightarrow> []) tr)"

definition crawl_inv :: "state \<Rightarrow> bool" where
  \<comment> \<open>every URL whose traversal has begun, and every URL requested, is in
      \<^verbatim>\<open>visited_urls\<close>, and none occurs twice\<close>
  "crawl_inv s =
     (set (scraped (trace s)) \<subseteq> visited_urls s \<and> distinct (scraped (trace s)) \<and>
      set (fetched (trace s)) \<subseteq> visited_urls s \<and> distinct (fetched (trace s)))"

definition sleep_returns :: "env \<Rightarrow> config \<Rightarrow> bool" where
  \<comment> \<open>\<^verbatim>\<open>time.sleep\<close> accepts the delay of the configuration\<close>
  "sleep_returns E cfg = (\<forall>h. sleep_outcome E h (delay cfg) = Inr ())"

definition request_errors_only :: "env \<Rightarrow> bool" where
  \<comment> \<open>the library's contract: what a GET raises is a \<^verbatim>\<open>requests.RequestException\<close>
      (a non-success status, a connection failure, a timeout)\<close>
  "request_errors_only E = (\<forall>h u e. http_get E h u = Inl e \<longrightarrow> is_RequestException e)"

definition extends :: "state \<Rightarrow> state \<Rightarrow> bool" where
  \<comment> \<open>what every step of a crawl does to the state: the Visited Set and the trace only
      grow, and \<open>crawl_inv\<close> is kept\<close>
  "extends a b = (visited_urls a \<subseteq> visited_urls b \<and> prefix (trace a) (trace b) \<and>
     (crawl_inv a \<longrightarrow> crawl_inv b))"

definition crawl_relation :: "(state \<Rightarrow> state \<Rightarrow> bool) \<Rightarrow> bool" where
  \<comment> \<open>a relation between states that holds across each step of \<open>scrape_website\<close>\<close>
  "crawl_relation R =
     ((\<forall>s. R s s) \<and> (\<forall>a b c. R a b \<longrightarrow> R b c \<longrightarrow> R a c) \<and>
      (\<forall>E cfg url d s. url \<notin> visited_urls s \<longrightarrow>
          R s (snd (download_page E cfg url (mark_visited url d s)))) \<and>
      (\<forall>E cfg url content s. R s (save_page E cfg url content s)) \<and>
      (\<forall>url e s. R s (logging ERROR (ParseFailed url e) s)))"

definition errors_logged :: "event list \<Rightarrow> message list" where
  \<comment> \<open>the records logged at level ERROR, in order\<close>
  "errors_logged tr = concat (map (\<lambda>ev. case ev of Log ERROR msg \<Rightarrow> [msg] | _ \<Rightarrow> []) tr)"

definition marks_started :: "state \<Rightarrow> state \<Rightarrow> bool" where
  \<comment> \<open>a URL that has come into the Visited Set is one whose traversal has begun\<close>
  "marks_started a b =
     (visited_urls b \<subseteq> visited_urls a \<union> set (scraped (trace b)) \<and>
      set (scraped (trace a)) \<subseteq> set (scraped (trace b)))"

subsection \<open>The link filter, in the words of the specification\<close>

definition resolvable :: "string \<Rightarrow> string \<Rightarrow> bool" where
  \<comment> \<open>resolving the link against the page and parsing both raise nothing\<close>
  "resolvable url href =
     (case urljoin url href of
        Inl e \<Rightarrow> False
      | Inr next_url \<Rightarrow>
          (case urlparse next_url of
             Inl e \<Rightarrow> False
           | Inr pn \<Rightarrow> (case urlparse url of Inl e \<Rightarrow> False | Inr pc \<Rightarrow> True)))"

definition resolved :: "string \<Rightarrow> string \<Rightarrow> string" where
  \<comment> \<open>the link in absolute form\<close>
  "resolved url href = (case urljoin url href of Inl e \<Rightarrow> [] | Inr next_url \<Rightarrow> next_url)"

definition same_site :: "string \<Rightarrow> string \<Rightarrow> bool" where
  \<comment> \<open>the authority of the candidate equals the page's, and its scheme is http or https\<close>
  "same_site url candidate =
     (case urlparse candidate of
        Inl e \<Rightarrow> False
      | Inr pn \<Rightarrow>
          (case urlparse url of
             Inl e \<Rightarrow> False
           | Inr pc \<Rightarrow> netloc pn = netloc pc \<and> scheme pn \<in> {''http'', ''https''}))"

fun scrape_each :: "env \<Rightarrow> config \<Rightarrow> int \<Rightarrow> string list \<Rightarrow> state \<Rightarrow> (exn + unit) \<times> state" where
  \<comment> \<open>\<^verbatim>\<open>scrape_website(candidate, depth)\<close> for each candidate in turn, up to the first
      call that raises\<close>
  "scrape_each E cfg d [] s = (Inr (), s)"
| "scrape_each E cfg d (u # us) s =
     (case scrape_website E cfg u (Some d) s of
        (Inl e, s1) \<Rightarrow> (Inl e, s1)
      | (Inr _, s1) \<Rightarrow> scrape_each E cfg d us s1)"

subsection \<open>Example sites\<close>

definition cfg0 :: config where
  \<comment> \<open>the defaults of \<^verbatim>\<open>WebScraper.__init__\<close>\<close>
  "cfg0 = \<lparr>base_dir = ''/srv/scraped_pages'', max_depth = 3, delay = Finite 1\<rparr>"

definition fresh :: state where
  "fresh = \<lparr>visited_urls = {}, trace = []\<rparr>"

definition plain_site :: env where
  \<comment> \<open>every URL answers with a page without links, every \<^verbatim>\<open>robots.txt\<close> is read and
      allows, every write succeeds, \<^verbatim>\<open>time.sleep\<close> returns (the sites are used with the
      delay of one second of \<open>cfg0\<close>)\<close>
  "plain_site = \<lparr>urlopen = (\<lambda>h r. Inr ''User-agent: *''), robots_rules = (\<lambda>raw a u. Inr True),
     sleep_outcome = (\<lambda>h d. Inr ()), http_get = (\<lambda>h u. Inr ''page''),
     write_file = (\<lambda>h f c. Inr ()), html_hrefs = (\<lambda>c. Inr [])\<rparr>"

definition cyclic_site :: env where
  \<comment> \<open>the home page and \<^verbatim>\<open>/p1\<close> link to themselves and to each other\<close>
  "cyclic_site = plain_site
     \<lparr>http_get := (\<lambda>h u. if u = ''http://a.test/'' then Inr ''home'' else Inr ''p1''),
      html_hrefs := (\<lambda>c. if c = ''home'' then Inr [''/p1'', ''/'']
                         else Inr [''/'', ''/p1'', ''http://a.test/''])\<rparr>"

definition origin_links :: "string list" where
  "origin_links = [''http://same.example/a'', ''https://same.example/b'',
     ''http://other.example/c'', ''ftp://same.example/d'']"

definition origin_site :: env where
  "origin_site = plain_site
     \<lparr>http_get := (\<lambda>h u. if u = ''http://same.example/'' then Inr ''index'' else Inr ''page''),
      html_hrefs := (\<lambda>c. if c = ''index'' then Inr origin_links else Inr [])\<rparr>"

definition broken_link_site :: env where
  \<comment> \<open>the first link of the page has an opening bracket without a closing one\<close>
  "broken_link_site = plain_site
     \<lparr>http_get := (\<lambda>h u. if u = ''http://same.example/'' then Inr ''index'' else Inr ''page''),
      html_hrefs := (\<lambda>c. if c = ''index'' then Inr [''http://['', ''http://same.example/a'']
                         else Inr [])\<rparr>"

definition robots_down_site :: env where
  \<comment> \<open>no connection to the server of \<^verbatim>\<open>robots.txt\<close>\<close>
  "robots_down_site = plain_site\<lparr>urlopen := (\<lambda>h r. Inl URLError)\<rparr>"

definition robots_deny_site :: env where
  \<comment> \<open>the rules of \<^verbatim>\<open>robots.txt\<close> deny every URL\<close>
  "robots_deny_site = plain_site\<lparr>urlopen := (\<lambda>h r. Inr ''User-agent: * Disallow: /''),
     robots_rules := (\<lambda>raw a u. Inr False)\<rparr>"

definition robots_forbidden_site :: env where
  \<comment> \<open>the request for \<^verbatim>\<open>robots.txt\<close> is answered with the status 403\<close>
  "robots_forbidden_site = plain_site\<lparr>urlopen := (\<lambda>h r. Inl (UrllibHTTPError 403))\<rparr>"

definition robots_unavailable_site :: env where
  \<comment> \<open>the request for \<^verbatim>\<open>robots.txt\<close> is answered with the status 503\<close>
  "robots_unavailable_site = plain_site\<lparr>urlopen := (\<lambda>h r. Inl (UrllibHTTPError 503))\<rparr>"

definition robots_missing_site :: env where
  \<comment> \<open>the request for \<^verbatim>\<open>robots.txt\<close> is answered with the status 404\<close>
  "robots_missing_site = plain_site\<lparr>urlopen := (\<lambda>h r. Inl (UrllibHTTPError 404))\<rparr>"

definition cfg_negative_delay :: config where
  \<comment> \<open>\<^verbatim>\<open>WebScraper(delay=-1.0)\<close>\<close>
  "cfg_negative_delay = cfg0\<lparr>delay := Finite (- 1)\<rparr>"

definition negative_delay_site :: env where
  \<comment> \<open>\<open>plain_site\<close> as it is for \<open>cfg_negative_delay\<close>: \<^verbatim>\<open>time.sleep(-1.0)\<close> raises
      \<^verbatim>\<open>ValueError\<close>\<close>
  "negative_delay_site = plain_site\<lparr>sleep_outcome := (\<lambda>h d. Inl ValueError)\<rparr>"

definition broken_child_site :: env where
  \<comment> \<open>the home page links to \<^verbatim>\<open>/bad\<close>, whose request raises an exception that is not a
      \<^verbatim>\<open>RequestException\<close>, and then to \<^verbatim>\<open>/ok\<close>\<close>
  "broken_child_site = plain_site
     \<lparr>http_get := (\<lambda>h u. if u = ''http://a.test/'' then Inr ''home''
                        else if u = ''http://a.test/bad'' then Inl OtherException
                        else Inr ''page''),
      html_hrefs := (\<lambda>c. if c = ''home'' then Inr [''/bad'', ''/ok''] else Inr [])\<rparr>"

definition not_found_site :: env where
  "not_found_site = plain_site\<lparr>http_get := (\<lambda>h u. Inl HTTPError)\<rparr>"

definition timeout_site :: env where
  "timeout_site = plain_site\<lparr>http_get := (\<lambda>h u. Inl Timeout)\<rparr>"

definition empty_page_site :: env where
  "empty_page_site = plain_site\<lparr>http_get := (\<lambda>h u. Inr [])\<rparr>"

definition faulty_site :: env where
  \<comment> \<open>the home page links to a page that answers with an error status, one that times
      out, one whose file cannot be written, one the parser fails on, and a good one\<close>
  "faulty_site = plain_site
     \<lparr>http_get := (\<lambda>h u. if u = ''http://a.test/'' then Inr ''home''
                        else if u = ''http://a.test/missing'' then Inl HTTPError
                        else if u = ''http://a.test/slow'' then Inl Timeout
                        else if u = ''http://a.test/readonly'' then Inr ''readonly''
                        else if u = ''http://a.test/garbled'' then Inr ''garbled''
                        else Inr ''page''),
      write_file := (\<lambda>h f c. if c = ''readonly'' then Inl OSError else Inr ()),
      html_hrefs := (\<lambda>c. if c = ''home''
                           then Inr [''/missing'', ''/slow'', ''/readonly'', ''/garbled'', ''/ok'']
                         else if c = ''garbled'' then Inl OtherException
                         else Inr [])\<rparr>"

definition slash_site :: env where
  "slash_site = plain_site
     \<lparr>http_get := (\<lambda>h u. if u = ''http://ex.com/'' then Inr ''home'' else Inr ''page''),
      html_hrefs := (\<lambda>c. if c = ''home'' then Inr [''/a'', ''/a/''] else Inr [])\<rparr>"

section \<open>Basic facts\<close>

declare scrape_website.simps [simp del]

lemma fetched_simps [simp]:
  "fetched [] = []"
  "fetched (a @ b) = fetched a @ fetched b"
  "fetched (HttpGet u # tr) = u # fetched tr"
  "fetched (Log lvl msg # tr) = fetched tr"
  "fetched (RobotsRead r # tr) = fetched tr"
  "fetched (Sleep t # tr) = fetched tr"
  "fetched (WriteFile f c # tr) = fetched tr"
  by (simp_all add: fetched_def)

lemma scraped_simps [simp]:
  "scraped [] = []"
  "scraped (a @ b) = scraped a @ scraped b"
  "scraped (Log lvl (Scraping d u) # tr) = u # scraped tr"
  "scraped (Log lvl (RobotsCheckError u e) # tr) = scraped tr"
  "scraped (Log lvl (RobotsDisallows u) # tr) = scraped tr"
  "scraped (Log lvl (DownloadFailed u e) # tr) = scraped tr"
  "scraped (Log lvl (Saved u f) # tr) = scraped tr"
  "scraped (Log lvl (SaveFailed u e) # tr) = scraped tr"
  "scraped (Log lvl (ParseFailed u e) # tr) = scraped tr"
  "scraped (HttpGet u # tr) = scraped tr"
  "scraped (RobotsRead r # tr) = scraped tr"
  "scraped (Sleep t # tr) = scraped tr"
  "scraped (WriteFile f c # tr) = scraped tr"
  by (simp_all add: scraped_def)

lemma written_simps [simp]:
  "written [] = []"
  "written (a @ b) = written a @ written b"
  "written (WriteFile f c # tr) = (f, c) # written tr"
  "written (Log lvl msg # tr) = written tr"
  "written (RobotsRead r # tr) = written tr"
  "written (Sleep t # tr) = written tr"
  "written (HttpGet u # tr) = written tr"
  by (simp_all add: written_def)

lemma emit_simps [simp]:
  "visited_urls (emit ev s) = visited_urls s"
  "trace (emit ev s) = trace s @ [ev]"
  by (simp_all add: emit_def)

lemma logging_simps [simp]:
  "visited_urls (logging lvl msg s) = visited_urls s"
  "trace (logging lvl msg s) = trace s @ [Log lvl msg]"
  by (simp_all add: logging_def)

lemma mark_visited_simps [simp]:
  "visited_urls (mark_visited url d s) = insert url (visited_urls s)"
  "trace (mark_visited url d s) = trace s @ [Log INFO (Scraping d url)]"
  by (simp_all add: mark_visited_def)

lemma prefix_snoc_trans: "prefix xs ys \<Longrightarrow> prefix xs (ys @ zs)"
  by (auto simp: prefix_def)

lemma can_fetch_try_state [simp]:
  "visited_urls (snd (can_fetch_try E url s)) = visited_urls s"
  "fetched (trace (snd (can_fetch_try E url s))) = fetched (trace s)"
  "scraped (trace (snd (can_fetch_try E url s))) = scraped (trace s)"
  "written (trace (snd (can_fetch_try E url s))) = written (trace s)"
  "prefix (trace s) (trace (snd (can_fetch_try E url s)))"
  by (simp_all add: can_fetch_try_def rp_read_def Let_def prefix_snoc_trans
      split: sum.splits exn.splits)

lemma can_fetch_state [simp]:
  "visited_urls (snd (can_fetch E url s)) = visited_urls s"
  "fetched (trace (snd (can_fetch E url s))) = fetched (trace s)"
  "scraped (trace (snd (can_fetch E url s))) = scraped (trace s)"
  "written (trace (snd (can_fetch E url s))) = written (trace s)"
  "prefix (trace s) (trace (snd (can_fetch E url s)))"
  by (simp_all add: can_fetch_def split_beta prefix_snoc_trans split: sum.splits)

lemma download_page_try_state [simp]:
  "visited_urls (snd (download_page_try E cfg url s)) = visited_urls s"
  "scraped (trace (snd (download_page_try E cfg url s))) = scraped (trace s)"
  "written (trace (snd (download_page_try E cfg url s))) = written (trace s)"
  "prefix (trace s) (trace (snd (download_page_try E cfg url s)))"
  by (simp_all add: download_page_try_def time_sleep_def split_beta prefix_snoc_trans
      split: sum.splits bool.splits)

lemma download_page_try_fetched:
  "fetched (trace (snd (download_page_try E cfg url s))) = fetched (trace s) \<or>
   fetched (trace (snd (download_page_try E cfg url s))) = fetched (trace s) @ [url]"
  by (simp add: download_page_try_def time_sleep_def split_beta split: sum.splits bool.splits)

lemma download_page_state [simp]:
  "visited_urls (snd (download_page E cfg url s)) = visited_urls s"
  "scraped (trace (snd (download_page E cfg url s))) = scraped (trace s)"
  "written (trace (snd (download_page E cfg url s))) = written (trace s)"
  "prefix (trace s) (trace (snd (download_page E cfg url s)))"
  by (simp_all add: download_page_def split_beta prefix_snoc_trans split: sum.splits)

lemma download_page_fetched:
  "fetched (trace (snd (download_page E cfg url s))) = fetched (trace s) \<or>
   fetched (trace (snd (download_page E cfg url s))) = fetched (trace s) @ [url]"
  using download_page_try_fetched [of E cfg url s]
  by (auto simp add: download_page_def split_beta split: sum.splits)

lemma save_page_try_state [simp]:
  "visited_urls (snd (save_page_try E cfg url content s)) = visited_urls s"
  "fetched (trace (snd (save_page_try E cfg url content s))) = fetched (trace s)"
  "scraped (trace (snd (save_page_try E cfg url content s))) = scraped (trace s)"
  "prefix (trace s) (trace (snd (save_page_try E cfg url content s)))"
  by (simp_all add: save_page_try_def prefix_snoc_trans split: sum.splits)

lemma save_page_state [simp]:
  "visited_urls (save_page E cfg url content s) = visited_urls s"
  "fetched (trace (save_page E cfg url content s)) = fetched (trace s)"
  "scraped (trace (save_page E cfg url content s)) = scraped (trace s)"
  "prefix (trace s) (trace (save_page E cfg url content s))"
  by (simp_all add: save_page_def split_beta prefix_snoc_trans split: sum.splits)

subsection \<open>A rule for relations kept by every step of the crawl\<close>

lemma crawl_relationD:
  assumes "crawl_relation R"
  shows "R s s"
    and "R a b \<Longrightarrow> R b c \<Longrightarrow> R a c"
    and "url \<notin> visited_urls s \<Longrightarrow> R s (snd (download_page E cfg url (mark_visited url d s)))"
    and "R s (save_page E cfg url content s)"
    and "R s (logging ERROR (ParseFailed url e) s)"
  using assms unfolding crawl_relation_def by blast+

lemma crawl_steps:
  assumes rel: "crawl_relation R"
  shows "R s (snd (scrape_website E cfg url depth s))"
    and "R s' (snd (follow_links E cfg url' d hrefs s'))"
proof -
  note R_refl = crawl_relationD(1) [OF rel]
  note R_trans = crawl_relationD(2) [OF rel]
  note start = crawl_relationD(3) [OF rel]
  note save = crawl_relationD(4) [OF rel]
  note parse_failed = crawl_relationD(5) [OF rel]
  show "R s (snd (scrape_website E cfg url depth s))"
    and "R s' (snd (follow_links E cfg url' d hrefs s'))"
proof (induction E cfg url depth s and E cfg url' d hrefs s' rule: scrape_website_follow_links.induct)
  case (1 E cfg url depth s)
  show ?case
  proof (cases "depth_or_default cfg depth < 0 \<or> url \<in> visited_urls s")
    case True
    then show ?thesis by (simp add: scrape_website.simps R_refl)
  next
    case False
    obtain r s2 where dl: "download_page E cfg url (mark_visited url (depth_or_default cfg depth) s) = (r, s2)"
      by (cases "download_page E cfg url (mark_visited url (depth_or_default cfg depth) s)")
    have R2: "R s s2"
      using False dl start [of url s E cfg "depth_or_default cfg depth"] by simp
    have R3: "R s (save_page E cfg url content s2)" for content
      using R2 save R_trans by blast
    have R4: "R s (snd (follow_links E cfg url (depth_or_default cfg depth) links (save_page E cfg url content s2)))"
      if "r = Inr (Some content)" "content \<noteq> []" "html_hrefs E content = Inr links" for content links
      using "1.IH" [OF False dl [symmetric] that(1) refl that(2) that(3)] R3 R_trans by blast
    have R5: "R s (logging ERROR (ParseFailed url e) b)" if "R s b" for e b
      using that parse_failed R_trans by blast
    show ?thesis
      using False dl R2 R3 R4
      by (auto simp: scrape_website.simps split_beta split: sum.splits option.splits intro!: R5)
  qed
next
  case (2 E cfg url d s)
  then show ?case by (simp add: R_refl)
next
  case (3 E cfg url d href hrefs s)
  show ?case
  proof (cases "urljoin url href")
    case (Inl e)
    then show ?thesis by (simp add: R_refl)
  next
    case next_url: (Inr next_url)
    show ?thesis
    proof (cases "urlparse next_url")
      case (Inl e)
      then show ?thesis using next_url by (simp add: R_refl)
    next
      case parsed_next: (Inr parsed_next)
      show ?thesis
      proof (cases "urlparse url")
        case (Inl e)
        then show ?thesis using next_url parsed_next by (simp add: R_refl)
      next
        case parsed_current: (Inr parsed_current)
        show ?thesis
        proof (cases "netloc parsed_next = netloc parsed_current \<and> scheme parsed_next \<in> {''http'', ''https''}")
          case True
          obtain r1 s1 where sw: "scrape_website E cfg next_url (Some (d - 1)) s = (r1, s1)"
            by (cases "scrape_website E cfg next_url (Some (d - 1)) s")
          have R1: "R s s1"
            using sw "3.IH"(1) [OF next_url parsed_next parsed_current True] by simp
          show ?thesis
          proof (cases r1)
            case (Inl e)
            then show ?thesis
              using next_url parsed_next parsed_current True sw R1 by simp
          next
            case (Inr u)
            have "R s1 (snd (follow_links E cfg url d hrefs s1))"
              using "3.IH"(2) [OF next_url parsed_next parsed_current True sw [symmetric] Inr] .
            then show ?thesis
              using next_url parsed_next parsed_current True sw R1 Inr R_trans by auto
          qed
        next
          case False
          then show ?thesis
            using "3.IH"(3) [OF next_url parsed_next parsed_current False]
              next_url parsed_next parsed_current by auto
        qed
      qed
    qed
  qed
qed
qed

lemma after_download:
  assumes rel: "crawl_relation R"
    and go: "\<not> (depth_or_default cfg depth < 0 \<or> url \<in> visited_urls s)"
  shows "R (snd (download_page E cfg url (mark_visited url (depth_or_default cfg depth) s)))
           (snd (scrape_website E cfg url depth s))"
proof -
  note R_refl = crawl_relationD(1) [OF rel]
  note R_trans = crawl_relationD(2) [OF rel]
  note save = crawl_relationD(4) [OF rel]
  note parse_failed = crawl_relationD(5) [OF rel]
  let ?s2 = "snd (download_page E cfg url (mark_visited url (depth_or_default cfg depth) s))"
  have R3: "R ?s2 (save_page E cfg url content ?s2)" for content
    using save .
  have R4: "R ?s2 (snd (follow_links E cfg url dd links (save_page E cfg url content ?s2)))"
    for content links dd
    using crawl_steps(2) [OF rel] R3 R_trans by blast
  have R5: "R ?s2 (logging ERROR (ParseFailed url e) b)" if "R ?s2 b" for e b
    using that parse_failed R_trans by blast
  show ?thesis
    using go R3 R4
    by (auto simp: scrape_website.simps split_beta R_refl split: sum.splits option.splits intro!: R5)
qed

lemma crawl_inv_download_page:
  assumes "crawl_inv s" and "url \<notin> visited_urls s"
  shows "crawl_inv (snd (download_page E cfg url (mark_visited url d s)))"
proof -
  let ?s2 = "snd (download_page E cfg url (mark_visited url d s))"
  have new: "url \<notin> set (scraped (trace s))" "url \<notin> set (fetched (trace s))"
    using assms by (auto simp: crawl_inv_def)
  have "fetched (trace ?s2) = fetched (trace s) \<or> fetched (trace ?s2) = fetched (trace s) @ [url]"
    using download_page_fetched [of E cfg url "mark_visited url d s"] by simp
  then show ?thesis
    using assms(1) new by (auto simp: crawl_inv_def)
qed

lemma extends_crawl_relation: "crawl_relation extends"
  unfolding crawl_relation_def
proof (intro conjI allI impI)
  fix a b c :: state
  assume "extends a b" "extends b c"
  then show "extends a c" by (auto simp: extends_def)
next
  fix E cfg url d and s :: state
  assume "url \<notin> visited_urls s"
  then show "extends s (snd (download_page E cfg url (mark_visited url d s)))"
    using download_page_state(4) [of "mark_visited url d s" E cfg url]
    by (auto simp: extends_def crawl_inv_download_page dest: append_prefixD)
qed (simp_all add: extends_def crawl_inv_def)

lemmas scrape_website_extends = crawl_steps(1) [OF extends_crawl_relation]
lemmas follow_links_extends = crawl_steps(2) [OF extends_crawl_relation]
lemmas after_download_extends = after_download [OF extends_crawl_relation]

lemma marks_started_crawl_relation: "crawl_relation marks_started"
  unfolding crawl_relation_def
proof (intro conjI allI impI)
  fix a b c :: state
  assume "marks_started a b" "marks_started b c"
  then show "marks_started a c" by (auto simp: marks_started_def)
qed (auto simp: marks_started_def)

lemmas scrape_website_marks_started = crawl_steps(1) [OF marks_started_crawl_relation]

subsection \<open>The start of a traversal, and a traversal of depth 0\<close>

lemma errors_logged_simps [simp]:
  "errors_logged [] = []"
  "errors_logged (a @ b) = errors_logged a @ errors_logged b"
  "errors_logged (Log ERROR msg # tr) = msg # errors_logged tr"
  by (simp_all add: errors_logged_def)

lemma traversal_starts:
  assumes "0 \<le> depth_or_default cfg depth" and "url \<notin> visited_urls s"
  shows "url \<in> visited_urls (snd (scrape_website E cfg url depth s))"
    and "prefix (trace s @ [Log INFO (Scraping (depth_or_default cfg depth) url)])
           (trace (snd (scrape_website E cfg url depth s)))"
proof -
  let ?d = "depth_or_default cfg depth"
  let ?s2 = "snd (download_page E cfg url (mark_visited url ?d s))"
  let ?s' = "snd (scrape_website E cfg url depth s)"
  have ext: "extends ?s2 ?s'"
    using after_download_extends [of cfg depth url s E] assms by simp
  have "url \<in> visited_urls ?s2"
    by simp
  then show "url \<in> visited_urls ?s'"
    using ext by (auto simp: extends_def)
  have "prefix (trace s @ [Log INFO (Scraping ?d url)]) (trace ?s2)"
    using download_page_state(4) [of "mark_visited url ?d s" E cfg url] by simp
  then show "prefix (trace s @ [Log INFO (Scraping ?d url)]) (trace ?s')"
    using ext by (auto simp: extends_def)
qed

lemma follow_links_out_of_depth:
  "d \<le> 0 \<Longrightarrow> follow_links E cfg url d hrefs s = (Inr (), s) \<or>
     (\<exists>e. follow_links E cfg url d hrefs s = (Inl e, s))"
proof (induction hrefs)
  case Nil
  then show ?case by simp
next
  case (Cons href hrefs)
  have "scrape_website E cfg u (Some (d - 1)) s = (Inr (), s)" for u
    using Cons.prems by (simp add: scrape_website.simps depth_or_default_def)
  then show ?case
    using Cons by (auto split: sum.splits)
qed

lemma single_page_visited:
  "visited_urls (snd (scrape_website E cfg u (Some 0) s)) \<subseteq> insert u (visited_urls s)"
proof (cases "u \<in> visited_urls s")
  case True
  then show ?thesis by (auto simp: scrape_website.simps)
next
  case False
  let ?s2 = "snd (download_page E cfg u (mark_visited u 0 s))"
  have "snd (follow_links E cfg u 0 hrefs st) = st" for hrefs st
    using follow_links_out_of_depth [of 0 E cfg u hrefs st] by auto
  then show ?thesis
    using False
    by (auto simp: scrape_website.simps depth_or_default_def split_beta
        split: sum.splits option.splits)
qed

subsection \<open>What can leave a call\<close>

lemma download_page_reraises:
  "download_page_try E cfg url s = (Inl e, s1) \<Longrightarrow> \<not> is_RequestException e \<Longrightarrow>
   download_page E cfg url s = (Inl e, s1)"
  by (simp add: download_page_def)

lemma download_page_try_raises:
  assumes "request_errors_only E" and "sleep_returns E cfg"
    and "download_page_try E cfg url s = (Inl e, s1)"
  shows "is_RequestException e"
  using assms
  by (auto simp: download_page_try_def time_sleep_def request_errors_only_def sleep_returns_def
      split_beta split: bool.splits sum.splits)

lemma download_page_returns:
  assumes "request_errors_only E" and "sleep_returns E cfg"
  shows "\<exists>r. fst (download_page E cfg url s) = Inr r"
proof (cases "download_page_try E cfg url s")
  case (Pair r s1)
  then show ?thesis
    using download_page_try_raises [OF assms, of url s _ s1]
    by (cases r) (auto simp: download_page_def)
qed

lemma scrape_website_raises_iff:
  "fst (scrape_website E cfg url depth s) = Inl e \<longleftrightarrow>
     \<not> (depth_or_default cfg depth < 0 \<or> url \<in> visited_urls s) \<and>
     fst (download_page E cfg url (mark_visited url (depth_or_default cfg depth) s)) = Inl e"
  by (auto simp: scrape_website.simps split_beta split: sum.splits option.splits)

lemma scrape_website_returns:
  assumes "request_errors_only E" and "sleep_returns E cfg"
  shows "fst (scrape_website E cfg url depth s) = Inr ()"
proof (cases "fst (scrape_website E cfg url depth s)")
  case (Inl e)
  then show ?thesis
    using download_page_returns [OF assms, of url "mark_visited url (depth_or_default cfg depth) s"]
    by (auto simp: scrape_website_raises_iff)
next
  case (Inr u)
  then show ?thesis by simp
qed

lemma follow_links_step:
  assumes "resolvable url href" and "same_site url (resolved url href)"
  shows "follow_links E cfg url d (href # hrefs) s =
     (case scrape_website E cfg (resolved url href) (Some (d - 1)) s of
        (Inl e, s1) \<Rightarrow> (Inl e, s1)
      | (Inr u, s1) \<Rightarrow> follow_links E cfg url d hrefs s1)"
  using assms
  by (auto simp: resolvable_def same_site_def resolved_def split: sum.splits)

lemma follow_links_skip:
  assumes "resolvable url href" and "\<not> same_site url (resolved url href)"
  shows "follow_links E cfg url d (href # hrefs) s = follow_links E cfg url d hrefs s"
  using assms
  by (auto simp: resolvable_def same_site_def resolved_def split: sum.splits)

subsection \<open>What the URL functions raise\<close>

lemma urlsplit_raises: "urlsplit url dflt = Inl e \<Longrightarrow> e = ValueError"
  by (auto simp: urlsplit_def Let_def split_beta split: if_splits)

lemma urlparse_default_raises: "urlparse_default url dflt = Inl e \<Longrightarrow> e = ValueError"
  by (auto simp: urlparse_default_def Let_def split_beta dest: urlsplit_raises split: sum.splits)

lemma urlparse_raises: "urlparse url = Inl e \<Longrightarrow> e = ValueError"
  by (auto simp: urlparse_def dest: urlparse_default_raises)

lemma urljoin_raises: "urljoin base url = Inl e \<Longrightarrow> e = ValueError"
  by (auto simp: urljoin_def Let_def dest: urlparse_default_raises split: if_splits sum.splits)

lemma follow_links_unresolvable:
  assumes "\<not> resolvable url href"
  shows "follow_links E cfg url d (href # hrefs) s = (Inl ValueError, s)"
  using assms
  by (auto simp: resolvable_def dest: urlparse_raises urljoin_raises split: sum.splits)

subsection \<open>The path of a parsed URL\<close>

lemma set_split1_fst: "set (fst (split1 c w)) \<subseteq> set w"
  by (auto simp: split1_def dest: set_takeWhileD)

lemma split1_fst_without: "c \<notin> set (fst (split1 c w))"
  by (auto simp: split1_def dest: set_takeWhileD)

lemma set_splitparams_fst: "set (fst (splitparams w)) \<subseteq> set w"
proof -
  let ?seg = "rev (takeWhile (\<lambda>c. c \<noteq> CHR ''/'') (rev w))"
  have seg: "set ?seg \<subseteq> set w"
    by (auto dest: set_takeWhileD)
  have dir: "set (take (length w - length ?seg) w) \<subseteq> set w"
    by (rule set_take_subset)
  have "set (take (length w - length ?seg) w @ fst (split1 (CHR '';'') ?seg)) \<subseteq> set w"
    using seg dir set_split1_fst [of "CHR '';''" ?seg] by auto
  then show ?thesis
    using set_split1_fst [of "CHR '';''" w]
    by (simp add: splitparams_def Let_def)
qed

lemma urlsplit_path_has_no_query:
  "urlsplit url dflt = Inr (sch, nl, u, qry, frag) \<Longrightarrow> CHR ''?'' \<notin> set u"
  using split1_fst_without [of "CHR ''?''"]
  by (auto simp: urlsplit_def Let_def split_beta split: if_splits)

lemma urlparse_path_has_no_query:
  assumes "urlparse url = Inr p"
  shows "CHR ''?'' \<notin> set (path p)"
proof -
  obtain sch nl u qry frag where parts: "urlsplit url [] = Inr (sch, nl, u, qry, frag)"
    using assms by (auto simp: urlparse_def urlparse_default_def split: sum.splits)
  have "set (path p) \<subseteq> set u"
    using assms parts set_splitparams_fst [of u]
    by (auto simp: urlparse_def urlparse_default_def Let_def split_beta split: if_splits)
  then show ?thesis
    using urlsplit_path_has_no_query [OF parts] by blast
qed

section \<open>The claims\<close>

text \<open>
  C1. For every call of the traversal on a URL that is not yet in the Visited Set, with a
  depth that is not negative, the URL is inserted into the Visited Set before any
  network activity: the URL is in the Visited Set when the call ends, whatever the
  directive check and the fetch do (also when they raise), the first thing the call does
  to the outside world is the log line that follows the insertion, so that the read of
  \<^verbatim>\<open>robots.txt\<close> and the GET request come after it, and no GET request for the URL has been
  made before. So over a whole crawl every URL is requested at most once, on cyclic link
  graphs too: \<open>crawl_inv\<close> (the URLs requested are in the Visited Set and pairwise
  distinct, and so are the URLs whose traversal has begun) holds after every call when it
  holds before, and it holds of the empty state a crawl starts from.
\<close>

theorem visited_before_fetch:
  assumes "crawl_inv s"
  shows "crawl_inv (snd (scrape_website E cfg url depth s)) \<and>
    distinct (fetched (trace (snd (scrape_website E cfg url depth s)))) \<and>
    (0 \<le> depth_or_default cfg depth \<and> url \<notin> visited_urls s \<longrightarrow>
       url \<in> visited_urls (snd (scrape_website E cfg url depth s)) \<and>
       prefix (trace s @ [Log INFO (Scraping (depth_or_default cfg depth) url)])
         (trace (snd (scrape_website E cfg url depth s))) \<and>
       url \<notin> set (fetched (trace s)))"
proof -
  have "crawl_inv (snd (scrape_website E cfg url depth s))"
    using scrape_website_extends [of s E cfg url depth] assms by (simp add: extends_def)
  moreover from this have "distinct (fetched (trace (snd (scrape_website E cfg url depth s))))"
    by (simp add: crawl_inv_def)
  moreover have "url \<notin> set (fetched (trace s))" if "url \<notin> visited_urls s"
    using assms that by (auto simp: crawl_inv_def)
  ultimately show ?thesis
    using traversal_starts [of cfg depth url s E] by blast
qed

theorem visited_before_fetch_witness:
  "crawl_inv (snd (scrape_website cyclic_site cfg0 ''http://a.test/'' None fresh)) \<and>
   ''http://a.test/'' \<in> visited_urls (snd (scrape_website cyclic_site cfg0 ''http://a.test/'' None fresh)) \<and>
   fetched (trace (snd (scrape_website cyclic_site cfg0 ''http://a.test/'' None fresh)))
     = [''http://a.test/'', ''http://a.test/p1'']"
proof -
  have start: "crawl_inv fresh"
    by (simp add: crawl_inv_def fresh_def)
  have run: "fetched (trace (snd (scrape_website cyclic_site cfg0 ''http://a.test/'' None fresh)))
     = [''http://a.test/'', ''http://a.test/p1'']"
    by code_simp
  show ?thesis
    using visited_before_fetch [OF start, of cyclic_site cfg0 "''http://a.test/''" None] run
    by (simp add: depth_or_default_def cfg0_def fresh_def)
qed

text \<open>
  C2. For every URL already present in the Visited Set, invoking the traversal on it
  again is a no-op: the call returns at once, with the state (the Visited Set and the
  trace of everything done to the outside world: requests, file writes, log lines)
  unchanged, so that there is no fetch, no persistence and no recursion.
\<close>

theorem revisit_is_noop:
  "url \<in> visited_urls s \<Longrightarrow> scrape_website E cfg url depth s = (Inr (), s)"
  by (simp add: scrape_website.simps)

theorem revisit_is_noop_witness:
  "scrape_website cyclic_site cfg0 ''http://a.test/'' None
     \<lparr>visited_urls = {''http://a.test/''}, trace = [HttpGet ''http://a.test/'']\<rparr>
   = (Inr (), \<lparr>visited_urls = {''http://a.test/''}, trace = [HttpGet ''http://a.test/'']\<rparr>)"
  using revisit_is_noop [of "''http://a.test/''"
      "\<lparr>visited_urls = {''http://a.test/''}, trace = [HttpGet ''http://a.test/'']\<rparr>"
      cyclic_site cfg0 None]
  by simp

text \<open>
  C9. For every URL and every negative remaining depth, the traversal returns at once
  and does nothing: the state is unchanged, so there is no insertion into the Visited
  Set, no directive check, no fetch, no persistence and no recursion. The depth is the
  argument, or \<^verbatim>\<open>max_depth\<close> when the argument is \<^verbatim>\<open>None\<close>.
\<close>

theorem negative_depth_is_noop:
  "depth_or_default cfg depth < 0 \<Longrightarrow> scrape_website E cfg url depth s = (Inr (), s)"
  by (simp add: scrape_website.simps)

theorem negative_depth_is_noop_witness:
  "scrape_website plain_site cfg0 ''http://a.test/'' (Some (- 1)) fresh = (Inr (), fresh)"
  using negative_depth_is_noop [of cfg0 "Some (- 1)" plain_site "''http://a.test/''" fresh]
  by (simp add: depth_or_default_def)

text \<open>
  C8. Membership in the Visited Set is equality of strings, with no normalisation: for
  URLs \<open>u\<close> and \<open>v\<close> that differ as strings, a visit of the page \<open>u\<close> (a traversal of depth 0,
  which follows no link) does not mark \<open>v\<close>, and a traversal of \<open>v\<close> after it is not
  skipped: it inserts \<open>v\<close> and begins with the log line of \<open>v\<close>. At any depth, if \<open>v\<close> is
  in the Visited Set after a traversal of \<open>u\<close>, then a traversal of the very string \<open>v\<close>
  has begun on the way (it was reached by a link). In particular \<^verbatim>\<open>http://ex.com/a\<close> and
  \<^verbatim>\<open>http://ex.com/a/\<close> are both crawled.
\<close>

theorem visited_exact_string:
  assumes "u \<noteq> v" and "v \<notin> visited_urls s"
  shows "v \<notin> visited_urls (snd (scrape_website E cfg u (Some 0) s)) \<and>
    (0 \<le> d \<longrightarrow>
       v \<in> visited_urls (snd (scrape_website E cfg v (Some d) (snd (scrape_website E cfg u (Some 0) s)))) \<and>
       prefix (trace (snd (scrape_website E cfg u (Some 0) s)) @ [Log INFO (Scraping d v)])
         (trace (snd (scrape_website E cfg v (Some d) (snd (scrape_website E cfg u (Some 0) s)))))) \<and>
    (v \<in> visited_urls (snd (scrape_website E cfg u depth s)) \<longrightarrow>
       v \<in> set (scraped (trace (snd (scrape_website E cfg u depth s)))))"
proof -
  let ?s1 = "snd (scrape_website E cfg u (Some 0) s)"
  have unmarked: "v \<notin> visited_urls ?s1"
    using single_page_visited [of E cfg u s] assms by auto
  have started: "v \<in> set (scraped (trace (snd (scrape_website E cfg u depth s))))"
    if "v \<in> visited_urls (snd (scrape_website E cfg u depth s))"
    using that assms(2) scrape_website_marks_started [of s E cfg u depth]
    by (auto simp: marks_started_def)
  show ?thesis
    using unmarked started traversal_starts [of cfg "Some d" v ?s1 E]
    by (simp add: depth_or_default_def)
qed

theorem visited_exact_string_witness:
  "''http://ex.com/a/'' \<notin> visited_urls (snd (scrape_website slash_site cfg0 ''http://ex.com/a'' (Some 0) fresh)) \<and>
   ''http://ex.com/a/'' \<in> visited_urls (snd (scrape_website slash_site cfg0 ''http://ex.com/a/'' (Some 0)
       (snd (scrape_website slash_site cfg0 ''http://ex.com/a'' (Some 0) fresh)))) \<and>
   fetched (trace (snd (scrape_website slash_site cfg0 ''http://ex.com/'' None fresh)))
     = [''http://ex.com/'', ''http://ex.com/a'', ''http://ex.com/a/'']"
proof -
  have run: "fetched (trace (snd (scrape_website slash_site cfg0 ''http://ex.com/'' None fresh)))
     = [''http://ex.com/'', ''http://ex.com/a'', ''http://ex.com/a/'']"
    by code_simp
  show ?thesis
    using visited_exact_string [of "''http://ex.com/a''" "''http://ex.com/a/''" fresh slash_site cfg0 0] run
    by (simp add: fresh_def)
qed

text \<open>
  C10. For every URL whose fetch ends without an exception and gives the empty string,
  the traversal does what it does when the fetch gives \<^verbatim>\<open>None\<close> (a failed or disallowed
  fetch): it returns with the state the fetch left, so nothing is written, no link is
  extracted or followed, and the URL stays in the Visited Set.
\<close>

theorem empty_content_is_skipped:
  assumes "0 \<le> depth_or_default cfg depth" and "url \<notin> visited_urls s"
    and "download_page E cfg url (mark_visited url (depth_or_default cfg depth) s) = (Inr r, s2)"
    and "r = None \<or> r = Some []"
  shows "scrape_website E cfg url depth s = (Inr (), s2) \<and>
    visited_urls s2 = insert url (visited_urls s) \<and>
    written (trace s2) = written (trace s) \<and>
    scraped (trace s2) = scraped (trace s) @ [url]"
proof -
  have "scrape_website E cfg url depth s = (Inr (), s2)"
    using assms by (auto simp: scrape_website.simps)
  moreover have "s2 = snd (download_page E cfg url (mark_visited url (depth_or_default cfg depth) s))"
    using assms(3) by simp
  ultimately show ?thesis
    by simp
qed

theorem empty_content_is_skipped_witness:
  "scrape_website empty_page_site cfg0 ''http://a.test/'' None fresh =
     (Inr (), \<lparr>visited_urls = {''http://a.test/''},
        trace = [Log INFO (Scraping 3 ''http://a.test/''), RobotsRead ''http://a.test/robots.txt'',
                 Sleep (Finite 1), HttpGet ''http://a.test/'']\<rparr>)"
proof -
  have dl: "download_page empty_page_site cfg0 ''http://a.test/''
      (mark_visited ''http://a.test/'' (depth_or_default cfg0 None) fresh) =
     (Inr (Some []), \<lparr>visited_urls = {''http://a.test/''},
        trace = [Log INFO (Scraping 3 ''http://a.test/''), RobotsRead ''http://a.test/robots.txt'',
                 Sleep (Finite 1), HttpGet ''http://a.test/'']\<rparr>)"
    by code_simp
  show ?thesis
    using empty_content_is_skipped [OF _ _ dl] by (simp add: depth_or_default_def cfg0_def fresh_def)
qed

text \<open>
  C6, as the claim states it, fails. \<^verbatim>\<open>RobotFileParser.read\<close> catches the
  \<^verbatim>\<open>urllib.error.HTTPError\<close> that \<^verbatim>\<open>urlopen\<close> raises for an error status, so a retrieval of
  \<^verbatim>\<open>robots.txt\<close> that fails with the status 503 (or 403) raises nothing in \<^verbatim>\<open>can_fetch\<close>:
  \<^verbatim>\<open>can_fetch\<close> returns false, no warning is logged (the read of the file is the only
  event), \<^verbatim>\<open>download_page\<close> logs that \<^verbatim>\<open>robots.txt\<close> disallows the URL and returns \<^verbatim>\<open>None\<close>,
  and the page is never requested.
\<close>

theorem can_fetch_error_status_counterexample:
  "can_fetch robots_unavailable_site ''http://a.test/'' fresh =
     (False, \<lparr>visited_urls = {}, trace = [RobotsRead ''http://a.test/robots.txt'']\<rparr>) \<and>
   can_fetch robots_forbidden_site ''http://a.test/'' fresh =
     (False, \<lparr>visited_urls = {}, trace = [RobotsRead ''http://a.test/robots.txt'']\<rparr>) \<and>
   download_page robots_unavailable_site cfg0 ''http://a.test/'' fresh =
     (Inr None, \<lparr>visited_urls = {}, trace = [RobotsRead ''http://a.test/robots.txt'',
        Log WARNING (RobotsDisallows ''http://a.test/'')]\<rparr>) \<and>
   fetched (trace (snd (scrape_website robots_unavailable_site cfg0 ''http://a.test/'' None fresh))) = []"
  by code_simp

text \<open>
  C6, amended. Whenever the body of the \<^verbatim>\<open>try\<close> of \<^verbatim>\<open>can_fetch\<close> raises an exception,
  \<^verbatim>\<open>can_fetch\<close> returns true and the warning is the record logged last. The body raises
  when \<^verbatim>\<open>urlparse\<close> rejects the URL of the page or the URL of \<^verbatim>\<open>robots.txt\<close>; when
  \<^verbatim>\<open>urlopen\<close> or the read of the file raises anything but an HTTP error status (a
  connection failure, a timeout); and when the decoding of the content or the evaluation
  of the rules raises, the verdict being what the rules give otherwise. An HTTP error
  status is no such failure: \<^verbatim>\<open>RobotFileParser.read\<close> swallows it, nothing is raised, no
  warning is logged, and \<^verbatim>\<open>can_fetch\<close> returns false for 401, for 403 and for every status
  outside 400..499, true for the other statuses 4xx. Whenever \<^verbatim>\<open>can_fetch\<close> returns true
  and \<^verbatim>\<open>time.sleep\<close> accepts the delay, \<^verbatim>\<open>download_page\<close> sends the GET request for the URL;
  when \<^verbatim>\<open>time.sleep\<close> raises, no request is sent.
\<close>

theorem can_fetch_fails_open:
  "(\<forall>e. fst (can_fetch_try E url s) = Inl e \<longrightarrow>
      can_fetch E url s = (True, logging WARNING (RobotsCheckError url e) (snd (can_fetch_try E url s)))) \<and>
   (\<forall>e. urlparse url = Inl e \<longrightarrow> can_fetch_try E url s = (Inl e, s)) \<and>
   (\<forall>p e. urlparse url = Inr p \<and> urlparse (robots_url_for p) = Inl e \<longrightarrow>
      can_fetch_try E url s = (Inl e, s)) \<and>
   (\<forall>p q e. urlparse url = Inr p \<and> urlparse (robots_url_for p) = Inr q \<and>
      urlopen E (trace s) (robots_url_for p) = Inl e \<and> (\<forall>code. e \<noteq> UrllibHTTPError code) \<longrightarrow>
      can_fetch_try E url s = (Inl e, emit (RobotsRead (robots_url_for p)) s)) \<and>
   (\<forall>p q raw. urlparse url = Inr p \<and> urlparse (robots_url_for p) = Inr q \<and>
      urlopen E (trace s) (robots_url_for p) = Inr raw \<longrightarrow>
      can_fetch_try E url s =
        (robots_rules E raw user_agent url, emit (RobotsRead (robots_url_for p)) s)) \<and>
   (\<forall>p q code. urlparse url = Inr p \<and> urlparse (robots_url_for p) = Inr q \<and>
      urlopen E (trace s) (robots_url_for p) = Inl (UrllibHTTPError code) \<longrightarrow>
      can_fetch E url s =
        (code \<noteq> 401 \<and> code \<noteq> 403 \<and> 400 \<le> code \<and> code < 500,
         emit (RobotsRead (robots_url_for p)) s)) \<and>
   (fst (can_fetch E url s) \<and> sleep_returns E cfg \<longrightarrow>
      fetched (trace (snd (download_page E cfg url s))) = fetched (trace s) @ [url]) \<and>
   (\<forall>e. sleep_outcome E (trace (snd (can_fetch E url s))) (delay cfg) = Inl e \<longrightarrow>
      fetched (trace (snd (download_page E cfg url s))) = fetched (trace s))"
proof (intro conjI allI impI)
  fix e
  assume "fst (can_fetch_try E url s) = Inl e"
  then show "can_fetch E url s =
      (True, logging WARNING (RobotsCheckError url e) (snd (can_fetch_try E url s)))"
    by (simp add: can_fetch_def split_beta)
next
  fix e
  assume "urlparse url = Inl e"
  then show "can_fetch_try E url s = (Inl e, s)"
    by (simp add: can_fetch_try_def)
next
  fix p e
  assume "urlparse url = Inr p \<and> urlparse (robots_url_for p) = Inl e"
  then show "can_fetch_try E url s = (Inl e, s)"
    by (simp add: can_fetch_try_def)
next
  fix p q e
  assume "urlparse url = Inr p \<and> urlparse (robots_url_for p) = Inr q \<and>
      urlopen E (trace s) (robots_url_for p) = Inl e \<and> (\<forall>code. e \<noteq> UrllibHTTPError code)"
  then show "can_fetch_try E url s = (Inl e, emit (RobotsRead (robots_url_for p)) s)"
    by (cases e) (simp_all add: can_fetch_try_def rp_read_def)
next
  fix p q raw
  assume "urlparse url = Inr p \<and> urlparse (robots_url_for p) = Inr q \<and>
      urlopen E (trace s) (robots_url_for p) = Inr raw"
  then show "can_fetch_try E url s =
      (robots_rules E raw user_agent url, emit (RobotsRead (robots_url_for p)) s)"
    by (simp add: can_fetch_try_def rp_read_def rp_can_fetch_def)
next
  fix p q code
  assume "urlparse url = Inr p \<and> urlparse (robots_url_for p) = Inr q \<and>
      urlopen E (trace s) (robots_url_for p) = Inl (UrllibHTTPError code)"
  then show "can_fetch E url s =
      (code \<noteq> 401 \<and> code \<noteq> 403 \<and> 400 \<le> code \<and> code < 500,
       emit (RobotsRead (robots_url_for p)) s)"
    by (simp add: can_fetch_def can_fetch_try_def rp_read_def rp_can_fetch_def)
next
  assume "fst (can_fetch E url s) \<and> sleep_returns E cfg"
  then show "fetched (trace (snd (download_page E cfg url s))) = fetched (trace s) @ [url]"
    using can_fetch_state(2) [of E url s]
    by (simp add: download_page_def download_page_try_def time_sleep_def sleep_returns_def
        split_beta split: bool.splits sum.splits)
next
  fix e
  assume "sleep_outcome E (trace (snd (can_fetch E url s))) (delay cfg) = Inl e"
  then show "fetched (trace (snd (download_page E cfg url s))) = fetched (trace s)"
    using can_fetch_state(2) [of E url s]
    by (simp add: download_page_def download_page_try_def time_sleep_def
        split_beta split: bool.splits sum.splits)
qed

theorem can_fetch_fails_open_witness:
  "can_fetch robots_down_site ''http://a.test/'' fresh =
     (True, \<lparr>visited_urls = {}, trace = [RobotsRead ''http://a.test/robots.txt'',
        Log WARNING (RobotsCheckError ''http://a.test/'' URLError)]\<rparr>) \<and>
   fetched (trace (snd (download_page robots_down_site cfg0 ''http://a.test/'' fresh))) =
     [''http://a.test/''] \<and>
   can_fetch robots_missing_site ''http://a.test/'' fresh =
     (True, \<lparr>visited_urls = {}, trace = [RobotsRead ''http://a.test/robots.txt'']\<rparr>)"
proof -
  let ?u = "''http://a.test/''"
  let ?p = "\<lparr>scheme = ''http'', netloc = ''a.test'', path = ''/'', params = [], query = [], fragment = []\<rparr>"
  let ?q = "\<lparr>scheme = ''http'', netloc = ''a.test'', path = ''/robots.txt'', params = [], query = [],
      fragment = []\<rparr>"
  have page: "urlparse ?u = Inr ?p"
    by code_simp
  have robots: "robots_url_for ?p = ''http://a.test/robots.txt''"
    by (simp add: robots_url_for_def)
  have robots_file: "urlparse ''http://a.test/robots.txt'' = Inr ?q"
    by code_simp
  have down: "urlopen robots_down_site (trace fresh) ''http://a.test/robots.txt'' = Inl URLError"
    by (simp add: robots_down_site_def plain_site_def)
  have missing: "urlopen robots_missing_site (trace fresh) ''http://a.test/robots.txt'' =
      Inl (UrllibHTTPError 404)"
    by (simp add: robots_missing_site_def plain_site_def)
  have pace: "sleep_returns robots_down_site cfg0"
    by (simp add: sleep_returns_def robots_down_site_def plain_site_def)
  have raised: "can_fetch_try robots_down_site ?u fresh =
      (Inl URLError, emit (RobotsRead ''http://a.test/robots.txt'') fresh)"
    using can_fetch_fails_open [of robots_down_site ?u fresh cfg0] page robots robots_file down
    by simp
  have allowed: "can_fetch robots_down_site ?u fresh =
      (True, logging WARNING (RobotsCheckError ?u URLError)
         (emit (RobotsRead ''http://a.test/robots.txt'') fresh))"
    using can_fetch_fails_open [of robots_down_site ?u fresh cfg0] raised
    by simp
  have got: "fetched (trace (snd (download_page robots_down_site cfg0 ?u fresh))) = [?u]"
    using can_fetch_fails_open [of robots_down_site ?u fresh cfg0] allowed pace
    by (simp add: fresh_def)
  have status: "can_fetch robots_missing_site ?u fresh =
      (True, emit (RobotsRead ''http://a.test/robots.txt'') fresh)"
    using can_fetch_fails_open [of robots_missing_site ?u fresh cfg0] page robots robots_file missing
    by simp
  show ?thesis
    using allowed got status by (simp add: fresh_def logging_def emit_def)
qed

text \<open>
  C7, as the claim states it, fails: a denial by \<^verbatim>\<open>robots.txt\<close>, a non-success status and
  a timeout all make \<^verbatim>\<open>download_page\<close> return the same value, \<^verbatim>\<open>None\<close>.
\<close>

theorem download_page_failures_counterexample:
  "fst (download_page robots_deny_site cfg0 ''http://a.test/'' fresh) = Inr None \<and>
   fst (download_page not_found_site cfg0 ''http://a.test/'' fresh) = Inr None \<and>
   fst (download_page timeout_site cfg0 ''http://a.test/'' fresh) = Inr None \<and>
   fst (download_page robots_deny_site cfg0 ''http://a.test/'' fresh) =
     fst (download_page not_found_site cfg0 ''http://a.test/'' fresh) \<and>
   fst (download_page not_found_site cfg0 ''http://a.test/'' fresh) =
     fst (download_page timeout_site cfg0 ''http://a.test/'' fresh)"
  by code_simp

text \<open>
  C7, amended. For the three kinds of failure of the claim, \<^verbatim>\<open>download_page\<close> returns
  one and the same value, \<^verbatim>\<open>None\<close>, so they are not distinct in what it returns: when
  \<^verbatim>\<open>can_fetch\<close> denies the URL, it logs a warning and returns \<^verbatim>\<open>None\<close>; when the body of
  its \<^verbatim>\<open>try\<close> raises a \<^verbatim>\<open>requests.RequestException\<close> (a non-success status, a connection
  failure and a timeout are all of this class), it logs an error that carries the
  exception and returns \<^verbatim>\<open>None\<close>; and the caller, \<^verbatim>\<open>scrape_website\<close>, given \<^verbatim>\<open>None\<close>,
  returns at once with nothing more done. The three kinds differ in the record logged
  only. (Nothing is said here of an exception of another class.)
\<close>

theorem download_page_failures_return_None:
  "(\<not> fst (can_fetch E url s) \<longrightarrow>
      download_page E cfg url s =
        (Inr None, logging WARNING (RobotsDisallows url) (snd (can_fetch E url s)))) \<and>
   (\<forall>e s1. download_page_try E cfg url s = (Inl e, s1) \<and> is_RequestException e \<longrightarrow>
      download_page E cfg url s = (Inr None, logging ERROR (DownloadFailed url e) s1)) \<and>
   (\<forall>s2. \<not> (depth_or_default cfg depth < 0 \<or> url \<in> visited_urls s) \<and>
      download_page E cfg url (mark_visited url (depth_or_default cfg depth) s) = (Inr None, s2) \<longrightarrow>
      scrape_website E cfg url depth s = (Inr (), s2))"
proof (intro conjI allI impI)
  assume "\<not> fst (can_fetch E url s)"
  then show "download_page E cfg url s =
      (Inr None, logging WARNING (RobotsDisallows url) (snd (can_fetch E url s)))"
    by (simp add: download_page_def download_page_try_def split_beta split: bool.splits)
next
  fix e s1
  assume "download_page_try E cfg url s = (Inl e, s1) \<and> is_RequestException e"
  then show "download_page E cfg url s = (Inr None, logging ERROR (DownloadFailed url e) s1)"
    by (simp add: download_page_def)
next
  fix s2
  assume "\<not> (depth_or_default cfg depth < 0 \<or> url \<in> visited_urls s) \<and>
      download_page E cfg url (mark_visited url (depth_or_default cfg depth) s) = (Inr None, s2)"
  then show "scrape_website E cfg url depth s = (Inr (), s2)"
    by (simp add: scrape_website.simps)
qed

theorem download_page_failures_return_None_witness:
  "download_page robots_deny_site cfg0 ''http://a.test/'' fresh =
     (Inr None, logging WARNING (RobotsDisallows ''http://a.test/'')
        \<lparr>visited_urls = {}, trace = [RobotsRead ''http://a.test/robots.txt'']\<rparr>) \<and>
   download_page not_found_site cfg0 ''http://a.test/'' fresh =
     (Inr None, logging ERROR (DownloadFailed ''http://a.test/'' HTTPError)
        \<lparr>visited_urls = {}, trace = [RobotsRead ''http://a.test/robots.txt'', Sleep (Finite 1),
           HttpGet ''http://a.test/'']\<rparr>)"
proof -
  have denied: "can_fetch robots_deny_site ''http://a.test/'' fresh =
      (False, \<lparr>visited_urls = {}, trace = [RobotsRead ''http://a.test/robots.txt'']\<rparr>)"
    by code_simp
  have status: "download_page_try not_found_site cfg0 ''http://a.test/'' fresh =
      (Inl HTTPError, \<lparr>visited_urls = {}, trace = [RobotsRead ''http://a.test/robots.txt'', Sleep (Finite 1),
           HttpGet ''http://a.test/'']\<rparr>)"
    by code_simp
  show ?thesis
    using download_page_failures_return_None [of robots_deny_site "''http://a.test/''" fresh cfg0 None]
      download_page_failures_return_None [of not_found_site "''http://a.test/''" fresh cfg0 None]
      denied status
    by simp
qed

text \<open>
  C4, as the claim states it, fails, in two ways. With a negative delay,
  \<^verbatim>\<open>time.sleep\<close> raises \<^verbatim>\<open>ValueError\<close> inside the \<^verbatim>\<open>try\<close> of \<^verbatim>\<open>download_page\<close>, whose
  \<^verbatim>\<open>except\<close> catches \<^verbatim>\<open>requests.RequestException\<close> only: the exception leaves
  \<^verbatim>\<open>scrape_website\<close>, hence reaches the caller, and no error is logged. And on
  \<open>broken_child_site\<close> the request for the first link of the home page raises an
  exception of another class: it leaves the traversal of that link, ends the loop over
  the links of the home page, where it is logged as a parse error of the home page, and
  the second link, \<^verbatim>\<open>/ok\<close>, is never traversed.
\<close>

theorem page_errors_escape_counterexample:
  "scrape_website negative_delay_site cfg_negative_delay ''http://a.test/'' None fresh =
     (Inl ValueError, \<lparr>visited_urls = {''http://a.test/''},
        trace = [Log INFO (Scraping 3 ''http://a.test/''), RobotsRead ''http://a.test/robots.txt'']\<rparr>) \<and>
   html_hrefs broken_child_site ''home'' = Inr [''/bad'', ''/ok''] \<and>
   fst (scrape_website broken_child_site cfg0 ''http://a.test/bad'' (Some 2) fresh) = Inl OtherException \<and>
   scraped (trace (snd (scrape_website broken_child_site cfg0 ''http://a.test/'' None fresh))) =
     [''http://a.test/'', ''http://a.test/bad''] \<and>
   ''http://a.test/ok'' \<notin>
     visited_urls (snd (scrape_website broken_child_site cfg0 ''http://a.test/'' None fresh)) \<and>
   errors_logged (trace (snd (scrape_website broken_child_site cfg0 ''http://a.test/'' None fresh))) =
     [ParseFailed ''http://a.test/'' OtherException]"
  by code_simp

text \<open>
  C4, amended. An exception is contained only where an \<^verbatim>\<open>except\<close> catches it.
  \<^item> \<^verbatim>\<open>save_page\<close> catches every exception of its \<^verbatim>\<open>try\<close>, logs it and returns.
  \<^item> \<^verbatim>\<open>scrape_website\<close> catches every exception of the parser, and every exception
    that leaves the loop over the links (from the resolution of a link or from a
    recursive call), logs it as a parse error of the page and returns normally.
  \<^item> An exception that leaves the call on a followed link ends the loop there: the links
    after it are not followed.
  \<^item> \<^verbatim>\<open>download_page\<close> catches \<^verbatim>\<open>requests.RequestException\<close> only (it logs it and returns
    \<^verbatim>\<open>None\<close>); any other exception of its \<^verbatim>\<open>try\<close>, such as the one \<^verbatim>\<open>time.sleep\<close> raises
    for a delay it refuses, leaves \<^verbatim>\<open>download_page\<close>.
  \<^item> A call of \<^verbatim>\<open>scrape_website\<close> raises exactly when its own \<^verbatim>\<open>download_page\<close> does.
  \<^item> If every GET request raises \<^verbatim>\<open>requests.RequestException\<close> only and \<^verbatim>\<open>time.sleep\<close>
    accepts the delay, then every call of \<^verbatim>\<open>scrape_website\<close> returns normally, and a
    followed link never ends the loop over its siblings.
\<close>

theorem page_errors_contained:
  "(\<forall>content e s1. save_page_try E cfg url content s = (Inl e, s1) \<longrightarrow>
      save_page E cfg url content s = logging ERROR (SaveFailed url e) s1) \<and>
   (\<forall>html s2 e. \<not> (depth_or_default cfg depth < 0 \<or> url \<in> visited_urls s) \<and>
      download_page E cfg url (mark_visited url (depth_or_default cfg depth) s) = (Inr (Some html), s2) \<and>
      html \<noteq> [] \<and> html_hrefs E html = Inl e \<longrightarrow>
      scrape_website E cfg url depth s =
        (Inr (), logging ERROR (ParseFailed url e) (save_page E cfg url html s2))) \<and>
   (\<forall>html s2 hrefs e s4. \<not> (depth_or_default cfg depth < 0 \<or> url \<in> visited_urls s) \<and>
      download_page E cfg url (mark_visited url (depth_or_default cfg depth) s) = (Inr (Some html), s2) \<and>
      html \<noteq> [] \<and> html_hrefs E html = Inr hrefs \<and>
      follow_links E cfg url (depth_or_default cfg depth) hrefs (save_page E cfg url html s2) = (Inl e, s4) \<longrightarrow>
      scrape_website E cfg url depth s = (Inr (), logging ERROR (ParseFailed url e) s4)) \<and>
   (\<forall>href hrefs d. resolvable url href \<and> same_site url (resolved url href) \<longrightarrow>
      follow_links E cfg url d (href # hrefs) s =
        (case scrape_website E cfg (resolved url href) (Some (d - 1)) s of
           (Inl e, s1) \<Rightarrow> (Inl e, s1)
         | (Inr u, s1) \<Rightarrow> follow_links E cfg url d hrefs s1)) \<and>
   (\<forall>e s1. download_page_try E cfg url s = (Inl e, s1) \<longrightarrow>
      download_page E cfg url s =
        (if is_RequestException e then (Inr None, logging ERROR (DownloadFailed url e) s1)
         else (Inl e, s1))) \<and>
   (\<forall>e. fst (scrape_website E cfg url depth s) = Inl e \<longleftrightarrow>
      \<not> (depth_or_default cfg depth < 0 \<or> url \<in> visited_urls s) \<and>
      fst (download_page E cfg url (mark_visited url (depth_or_default cfg depth) s)) = Inl e) \<and>
   (request_errors_only E \<and> sleep_returns E cfg \<longrightarrow>
      fst (scrape_website E cfg url depth s) = Inr () \<and>
      (\<forall>href hrefs d. resolvable url href \<and> same_site url (resolved url href) \<longrightarrow>
         follow_links E cfg url d (href # hrefs) s =
           follow_links E cfg url d hrefs
             (snd (scrape_website E cfg (resolved url href) (Some (d - 1)) s))))"
proof (intro conjI allI impI)
  fix content e s1
  assume "save_page_try E cfg url content s = (Inl e, s1)"
  then show "save_page E cfg url content s = logging ERROR (SaveFailed url e) s1"
    by (simp add: save_page_def)
next
  fix html s2 e
  assume "\<not> (depth_or_default cfg depth < 0 \<or> url \<in> visited_urls s) \<and>
      download_page E cfg url (mark_visited url (depth_or_default cfg depth) s) = (Inr (Some html), s2) \<and>
      html \<noteq> [] \<and> html_hrefs E html = Inl e"
  then show "scrape_website E cfg url depth s =
        (Inr (), logging ERROR (ParseFailed url e) (save_page E cfg url html s2))"
    by (simp add: scrape_website.simps)
next
  fix html s2 hrefs e s4
  assume "\<not> (depth_or_default cfg depth < 0 \<or> url \<in> visited_urls s) \<and>
      download_page E cfg url (mark_visited url (depth_or_default cfg depth) s) = (Inr (Some html), s2) \<and>
      html \<noteq> [] \<and> html_hrefs E html = Inr hrefs \<and>
      follow_links E cfg url (depth_or_default cfg depth) hrefs (save_page E cfg url html s2) = (Inl e, s4)"
  then show "scrape_website E cfg url depth s = (Inr (), logging ERROR (ParseFailed url e) s4)"
    by (simp add: scrape_website.simps)
next
  fix href hrefs d
  assume "resolvable url href \<and> same_site url (resolved url href)"
  then show "follow_links E cfg url d (href # hrefs) s =
        (case scrape_website E cfg (resolved url href) (Some (d - 1)) s of
           (Inl e, s1) \<Rightarrow> (Inl e, s1)
         | (Inr u, s1) \<Rightarrow> follow_links E cfg url d hrefs s1)"
    using follow_links_step [of url href E cfg d hrefs s] by blast
next
  fix e s1
  assume "download_page_try E cfg url s = (Inl e, s1)"
  then show "download_page E cfg url s =
        (if is_RequestException e then (Inr None, logging ERROR (DownloadFailed url e) s1)
         else (Inl e, s1))"
    by (simp add: download_page_def)
next
  fix e
  show "fst (scrape_website E cfg url depth s) = Inl e \<longleftrightarrow>
      \<not> (depth_or_default cfg depth < 0 \<or> url \<in> visited_urls s) \<and>
      fst (download_page E cfg url (mark_visited url (depth_or_default cfg depth) s)) = Inl e"
    by (rule scrape_website_raises_iff)
next
  assume "request_errors_only E \<and> sleep_returns E cfg"
  then show "fst (scrape_website E cfg url depth s) = Inr ()"
    using scrape_website_returns [of E cfg url depth s] by blast
next
  fix href hrefs d
  assume contract: "request_errors_only E \<and> sleep_returns E cfg"
    and link: "resolvable url href \<and> same_site url (resolved url href)"
  have "fst (scrape_website E cfg (resolved url href) (Some (d - 1)) s) = Inr ()"
    using contract scrape_website_returns [of E cfg "resolved url href" "Some (d - 1)" s] by blast
  then show "follow_links E cfg url d (href # hrefs) s =
      follow_links E cfg url d hrefs (snd (scrape_website E cfg (resolved url href) (Some (d - 1)) s))"
    using link follow_links_step [of url href E cfg d hrefs s]
    by (cases "scrape_website E cfg (resolved url href) (Some (d - 1)) s") (simp del: follow_links.simps)
qed

theorem page_errors_contained_witness:
  "fst (scrape_website faulty_site cfg0 ''http://a.test/'' None fresh) = Inr () \<and>
   fetched (trace (snd (scrape_website faulty_site cfg0 ''http://a.test/'' None fresh))) =
     [''http://a.test/'', ''http://a.test/missing'', ''http://a.test/slow'',
      ''http://a.test/readonly'', ''http://a.test/garbled'', ''http://a.test/ok''] \<and>
   errors_logged (trace (snd (scrape_website faulty_site cfg0 ''http://a.test/'' None fresh))) =
     [DownloadFailed ''http://a.test/missing'' HTTPError,
      DownloadFailed ''http://a.test/slow'' Timeout,
      SaveFailed ''http://a.test/readonly'' OSError,
      ParseFailed ''http://a.test/garbled'' OtherException] \<and>
   download_page not_found_site cfg0 ''http://a.test/'' fresh =
     (Inr None, \<lparr>visited_urls = {}, trace = [RobotsRead ''http://a.test/robots.txt'', Sleep (Finite 1),
        HttpGet ''http://a.test/'', Log ERROR (DownloadFailed ''http://a.test/'' HTTPError)]\<rparr>)"
proof -
  have contract: "request_errors_only faulty_site"
    by (auto simp: request_errors_only_def faulty_site_def plain_site_def split: if_splits)
  have pace: "sleep_returns faulty_site cfg0"
    by (simp add: sleep_returns_def faulty_site_def plain_site_def)
  have run: "fetched (trace (snd (scrape_website faulty_site cfg0 ''http://a.test/'' None fresh))) =
     [''http://a.test/'', ''http://a.test/missing'', ''http://a.test/slow'',
      ''http://a.test/readonly'', ''http://a.test/garbled'', ''http://a.test/ok'']"
    by code_simp
  have logged: "errors_logged (trace (snd (scrape_website faulty_site cfg0 ''http://a.test/'' None fresh))) =
     [DownloadFailed ''http://a.test/missing'' HTTPError,
      DownloadFailed ''http://a.test/slow'' Timeout,
      SaveFailed ''http://a.test/readonly'' OSError,
      ParseFailed ''http://a.test/garbled'' OtherException]"
    by code_simp
  have status: "download_page_try not_found_site cfg0 ''http://a.test/'' fresh =
      (Inl HTTPError, \<lparr>visited_urls = {}, trace = [RobotsRead ''http://a.test/robots.txt'',
         Sleep (Finite 1), HttpGet ''http://a.test/'']\<rparr>)"
    by code_simp
  have returns: "fst (scrape_website faulty_site cfg0 ''http://a.test/'' None fresh) = Inr ()"
    using page_errors_contained [of faulty_site cfg0 "''http://a.test/''" fresh None] contract pace
    by blast
  have caught: "download_page not_found_site cfg0 ''http://a.test/'' fresh =
     (Inr None, logging ERROR (DownloadFailed ''http://a.test/'' HTTPError)
        \<lparr>visited_urls = {}, trace = [RobotsRead ''http://a.test/robots.txt'', Sleep (Finite 1),
           HttpGet ''http://a.test/'']\<rparr>)"
    using page_errors_contained [of not_found_site cfg0 "''http://a.test/''" fresh None] status
    by simp
  show ?thesis
    using returns run logged caught by (simp add: logging_def emit_def)
qed

text \<open>
  C3, as the claim states it, fails. The page \<^verbatim>\<open>http://same.example/\<close> of
  \<open>broken_link_site\<close> is fetched and has two links. The second,
  \<^verbatim>\<open>http://same.example/a\<close>, resolves, has the authority of the page and the scheme http,
  and the depth left is 2; yet it is not recursed into (the only traversal that begins is
  the page's own, and the link is not in the Visited Set at the end), because
  \<^verbatim>\<open>urljoin\<close> raises \<^verbatim>\<open>ValueError\<close> on the first link: the \<^verbatim>\<open>except\<close> around the whole loop
  logs the error and the rest of the links is dropped.
\<close>

theorem follow_links_broken_link_counterexample:
  "resolvable ''http://same.example/'' ''http://same.example/a'' \<and>
   same_site ''http://same.example/'' (resolved ''http://same.example/'' ''http://same.example/a'') \<and>
   html_hrefs broken_link_site ''index'' = Inr [''http://['', ''http://same.example/a''] \<and>
   scraped (trace (snd (scrape_website broken_link_site cfg0 ''http://same.example/'' None fresh))) =
     [''http://same.example/''] \<and>
   ''http://same.example/a'' \<notin>
     visited_urls (snd (scrape_website broken_link_site cfg0 ''http://same.example/'' None fresh)) \<and>
   errors_logged (trace (snd (scrape_website broken_link_site cfg0 ''http://same.example/'' None fresh))) =
     [ParseFailed ''http://same.example/'' ValueError]"
  by code_simp

text \<open>
  C3, amended. For every page that is fetched with content that is not empty and that
  the parser reads, \<^verbatim>\<open>scrape_website\<close> saves it, runs the loop over its links with the
  depth of the page, logs as a parse error of the page the exception that leaves the
  loop, if any, and returns normally. The loop takes the links in document order up to
  the first one that does not resolve (\<^verbatim>\<open>urljoin\<close> or \<^verbatim>\<open>urlparse\<close> raises on it). Of the
  links before that one it calls the traversal, with the depth decremented by 1, on
  exactly those whose absolute form has the authority of the page and the scheme http
  or https, in order, and it stops at the first of these calls that raises, with its
  exception. When no call has raised, the loop returns normally if every link resolves,
  and otherwise ends with \<^verbatim>\<open>ValueError\<close> at the first link that does not: neither that
  link nor any link after it is followed. On the page of authority \<^verbatim>\<open>same.example\<close> with
  the four links of the example, exactly the first two are recursed into.
\<close>

theorem follow_links_same_site:
  "(\<forall>html s2 hrefs.
      \<not> (depth_or_default cfg depth < 0 \<or> url \<in> visited_urls s) \<and>
      download_page E cfg url (mark_visited url (depth_or_default cfg depth) s) = (Inr (Some html), s2) \<and>
      html \<noteq> [] \<and> html_hrefs E html = Inr hrefs \<longrightarrow>
      scrape_website E cfg url depth s =
        (case follow_links E cfg url (depth_or_default cfg depth) hrefs (save_page E cfg url html s2) of
           (Inl e, s4) \<Rightarrow> (Inr (), logging ERROR (ParseFailed url e) s4)
         | (Inr u, s4) \<Rightarrow> (Inr (), s4))) \<and>
   follow_links E cfg url d links st =
     (case scrape_each E cfg (d - 1)
             (filter (same_site url) (map (resolved url) (takeWhile (resolvable url) links))) st of
        (Inl e, s1) \<Rightarrow> (Inl e, s1)
      | (Inr u, s1) \<Rightarrow>
          if list_all (resolvable url) links then (Inr (), s1) else (Inl ValueError, s1))"
proof (intro conjI allI impI)
  fix html s2 hrefs
  assume "\<not> (depth_or_default cfg depth < 0 \<or> url \<in> visited_urls s) \<and>
      download_page E cfg url (mark_visited url (depth_or_default cfg depth) s) = (Inr (Some html), s2) \<and>
      html \<noteq> [] \<and> html_hrefs E html = Inr hrefs"
  then show "scrape_website E cfg url depth s =
        (case follow_links E cfg url (depth_or_default cfg depth) hrefs (save_page E cfg url html s2) of
           (Inl e, s4) \<Rightarrow> (Inr (), logging ERROR (ParseFailed url e) s4)
         | (Inr u, s4) \<Rightarrow> (Inr (), s4))"
    by (simp add: scrape_website.simps)
next
  show "follow_links E cfg url d links st =
     (case scrape_each E cfg (d - 1)
             (filter (same_site url) (map (resolved url) (takeWhile (resolvable url) links))) st of
        (Inl e, s1) \<Rightarrow> (Inl e, s1)
      | (Inr u, s1) \<Rightarrow>
          if list_all (resolvable url) links then (Inr (), s1) else (Inl ValueError, s1))"
  proof (induction links arbitrary: st)
    case Nil
    show ?case by simp
  next
    case (Cons h hs)
    show ?case
    proof (cases "resolvable url h")
      case False
      then show ?thesis
        using follow_links_unresolvable [of url h E cfg d hs st] by (simp del: follow_links.simps)
    next
      case res: True
      show ?thesis
      proof (cases "same_site url (resolved url h)")
        case True
        have "follow_links E cfg url d (h # hs) st =
            (case scrape_website E cfg (resolved url h) (Some (d - 1)) st of
               (Inl e, s1) \<Rightarrow> (Inl e, s1)
             | (Inr u, s1) \<Rightarrow> follow_links E cfg url d hs s1)"
          by (rule follow_links_step [OF res True])
        also have "\<dots> =
            (case scrape_each E cfg (d - 1)
                 (filter (same_site url) (map (resolved url) (takeWhile (resolvable url) (h # hs)))) st of
               (Inl e, s1) \<Rightarrow> (Inl e, s1)
             | (Inr u, s1) \<Rightarrow>
                 if list_all (resolvable url) (h # hs) then (Inr (), s1) else (Inl ValueError, s1))"
          using res True
          by (cases "scrape_website E cfg (resolved url h) (Some (d - 1)) st")
            (simp add: Cons.IH split: prod.splits sum.splits)
        finally show ?thesis .
      next
        case False
        have "follow_links E cfg url d (h # hs) st = follow_links E cfg url d hs st"
          by (rule follow_links_skip [OF res False])
        then show ?thesis
          using res False by (simp add: Cons.IH del: follow_links.simps split: prod.splits sum.splits)
      qed
    qed
  qed
qed

theorem follow_links_same_site_witness:
  "scrape_website origin_site cfg0 ''http://same.example/'' None fresh =
     (Inr (), snd (scrape_each origin_site cfg0 2 [''http://same.example/a'', ''https://same.example/b'']
        (save_page origin_site cfg0 ''http://same.example/'' ''index''
           \<lparr>visited_urls = {''http://same.example/''},
            trace = [Log INFO (Scraping 3 ''http://same.example/''),
                     RobotsRead ''http://same.example/robots.txt'', Sleep (Finite 1),
                     HttpGet ''http://same.example/'']\<rparr>))) \<and>
   scraped (trace (snd (scrape_website origin_site cfg0 ''http://same.example/'' None fresh))) =
     [''http://same.example/'', ''http://same.example/a'', ''https://same.example/b'']"
proof -
  let ?u = "''http://same.example/''"
  let ?s2 = "\<lparr>visited_urls = {''http://same.example/''},
            trace = [Log INFO (Scraping 3 ''http://same.example/''),
                     RobotsRead ''http://same.example/robots.txt'', Sleep (Finite 1),
                     HttpGet ''http://same.example/'']\<rparr>"
  have page: "download_page origin_site cfg0 ?u (mark_visited ?u (depth_or_default cfg0 None) fresh) =
      (Inr (Some ''index''), ?s2)"
    by code_simp
  have links: "html_hrefs origin_site ''index'' = Inr origin_links"
    by (simp add: origin_site_def)
  have ok: "list_all (resolvable ?u) origin_links"
    by code_simp
  have upto: "takeWhile (resolvable ?u) origin_links = origin_links"
    using ok by (simp add: list_all_iff)
  have kept: "filter (same_site ?u) (map (resolved ?u) origin_links) =
      [''http://same.example/a'', ''https://same.example/b'']"
    by code_simp
  have returns: "fst (scrape_each origin_site cfg0 2 [''http://same.example/a'', ''https://same.example/b'']
      (save_page origin_site cfg0 ?u ''index'' ?s2)) = Inr ()"
    by code_simp
  have run: "scraped (trace (snd (scrape_website origin_site cfg0 ?u None fresh))) =
     [''http://same.example/'', ''http://same.example/a'', ''https://same.example/b'']"
    by code_simp
  have start: "depth_or_default cfg0 None = 3" "?u \<notin> visited_urls fresh"
    by (simp_all add: depth_or_default_def cfg0_def fresh_def)
  have loop: "follow_links origin_site cfg0 ?u 3 origin_links (save_page origin_site cfg0 ?u ''index'' ?s2) =
      (Inr (), snd (scrape_each origin_site cfg0 2 [''http://same.example/a'', ''https://same.example/b'']
        (save_page origin_site cfg0 ?u ''index'' ?s2)))"
    using follow_links_same_site [of cfg0 None ?u fresh origin_site 3 origin_links
        "save_page origin_site cfg0 ?u ''index'' ?s2"] returns ok
    by (cases "scrape_each origin_site cfg0 2 [''http://same.example/a'', ''https://same.example/b'']
        (save_page origin_site cfg0 ?u ''index'' ?s2)")
      (simp add: upto kept del: follow_links.simps scrape_each.simps)
  have "scrape_website origin_site cfg0 ?u None fresh =
        (case follow_links origin_site cfg0 ?u 3 origin_links (save_page origin_site cfg0 ?u ''index'' ?s2) of
           (Inl e, s4) \<Rightarrow> (Inr (), logging ERROR (ParseFailed ?u e) s4)
         | (Inr u, s4) \<Rightarrow> (Inr (), s4))"
    using follow_links_same_site [of cfg0 None ?u fresh origin_site 3 origin_links fresh] page links start
    by (simp del: follow_links.simps)
  then show ?thesis
    using loop run by simp
qed

text \<open>
  C5. The first two examples of the path mapping hold. The third does not:
  \<^verbatim>\<open>get_filename\<close> takes the path from \<^verbatim>\<open>urlparse(url).path\<close>, which never holds the query,
  so \<^verbatim>\<open>https://ex.com/page?x=1\<close> is mapped to \<^verbatim>\<open>ex.com/page.html\<close> and not to
  \<^verbatim>\<open>ex.com/page_x_1.html\<close>, and two URLs that differ in the query only are mapped to the
  same file. The replacement of \<^verbatim>\<open>&\<close> and \<^verbatim>\<open>=\<close> by \<^verbatim>\<open>_\<close> does happen, to those that stand
  in the path; that of \<^verbatim>\<open>?\<close> never does, since no path \<^verbatim>\<open>urlparse\<close> returns holds one. The
  directory is joined by \<^verbatim>\<open>os.path.join\<close>.
\<close>

theorem get_filename_drops_query:
  "get_filename cfg ''https://ex.com/'' = Inr (os_path_join (base_dir cfg) ''ex.com/index.html'') \<and>
   get_filename cfg ''https://ex.com/dir/'' = Inr (os_path_join (base_dir cfg) ''ex.com/dir/index.html'') \<and>
   get_filename cfg ''https://ex.com/page?x=1'' = Inr (os_path_join (base_dir cfg) ''ex.com/page.html'') \<and>
   get_filename cfg ''https://ex.com/page?x=1'' \<noteq> Inr (os_path_join (base_dir cfg) ''ex.com/page_x_1.html'') \<and>
   get_filename cfg ''https://ex.com/page?x=1'' = get_filename cfg ''https://ex.com/page?x=2'' \<and>
   get_filename cfg ''https://ex.com/a=b&c'' = Inr (os_path_join (base_dir cfg) ''ex.com/a_b_c.html'') \<and>
   (urlparse url = Inr p \<longrightarrow> CHR ''?'' \<notin> set (path p))"
proof -
  have dead: "urlparse url = Inr p \<longrightarrow> CHR ''?'' \<notin> set (path p)"
    using urlparse_path_has_no_query [of url p] by blast
  have root: "get_filename cfg ''https://ex.com/'' = Inr (os_path_join (base_dir cfg) ''ex.com/index.html'')"
    by code_simp
  have dir: "get_filename cfg ''https://ex.com/dir/'' = Inr (os_path_join (base_dir cfg) ''ex.com/dir/index.html'')"
    by code_simp
  have page1: "get_filename cfg ''https://ex.com/page?x=1'' = Inr (os_path_join (base_dir cfg) ''ex.com/page.html'')"
    by code_simp
  have page2: "get_filename cfg ''https://ex.com/page?x=2'' = Inr (os_path_join (base_dir cfg) ''ex.com/page.html'')"
    by code_simp
  have flat: "get_filename cfg ''https://ex.com/a=b&c'' = Inr (os_path_join (base_dir cfg) ''ex.com/a_b_c.html'')"
    by code_simp
  have differ: "os_path_join (base_dir cfg) ''ex.com/page.html'' \<noteq> os_path_join (base_dir cfg) ''ex.com/page_x_1.html''"
    by (simp add: os_path_join_def)
  show ?thesis
    using root dir page1 page2 flat differ dead by simp
qed

theorem get_filename_drops_query_witness:
  "get_filename cfg0 ''https://ex.com/page?x=1'' = Inr ''/srv/scraped_pages/ex.com/page.html'' \<and>
   get_filename cfg0 ''https://ex.com/'' = Inr ''/srv/scraped_pages/ex.com/index.html'' \<and>
   get_filename cfg0 ''https://ex.com/dir/'' = Inr ''/srv/scraped_pages/ex.com/dir/index.html''"
  using get_filename_drops_query [of cfg0 "''https://ex.com/page?x=1''"]
  by (simp add: cfg0_def os_path_join_def endswith_def)

end
